theory Spec2Isabelle
  imports Complex_Main "HOL-Library.AList"
begin

section \<open>Numbers\<close>

text \<open>
  The metric cells of the data frames, the quotients computed on them and the layout
  coordinates are IEEE doubles. They are modelled as a real number or one of the three
  exceptional values; rounding is not modelled. Division follows numpy, which returns
  \<open>nan\<close> or an infinity where the divisor is zero (with a warning, not an exception).
  Every divisor of the program is an absolute value or a difference \<open>x - x\<close>, hence never a
  negative zero, so one zero is enough.
\<close>

datatype npfloat = Fin real | PInf | NInf | NaN

datatype error = KeyError | TypeError | IndexError | ValueError | ZeroDivisionError

fun np_neg :: "npfloat \<Rightarrow> npfloat" where
  "np_neg (Fin a) = Fin (- a)"
| "np_neg PInf = NInf"
| "np_neg NInf = PInf"
| "np_neg NaN = NaN"

fun np_abs :: "npfloat \<Rightarrow> npfloat" where
  "np_abs (Fin a) = Fin \<bar>a\<bar>"
| "np_abs PInf = PInf"
| "np_abs NInf = PInf"
| "np_abs NaN = NaN"

fun np_div :: "npfloat \<Rightarrow> npfloat \<Rightarrow> npfloat" where
  "np_div NaN y = NaN"
| "np_div x NaN = NaN"
| "np_div (Fin a) (Fin b) =
     (if b \<noteq> 0 then Fin (a / b)
      else if a = 0 then NaN else if 0 < a then PInf else NInf)"
| "np_div (Fin a) y = Fin 0"
| "np_div x (Fin b) = (if 0 \<le> b then x else np_neg x)"
| "np_div x y = NaN"

fun np_mul :: "npfloat \<Rightarrow> npfloat \<Rightarrow> npfloat" where
  "np_mul NaN y = NaN"
| "np_mul x NaN = NaN"
| "np_mul (Fin a) (Fin b) = Fin (a * b)"
| "np_mul (Fin a) y = (if a = 0 then NaN else if 0 < a then y else np_neg y)"
| "np_mul x (Fin b) = (if b = 0 then NaN else if 0 < b then x else np_neg x)"
| "np_mul x y = (if x = y then PInf else NInf)"

fun np_add :: "npfloat \<Rightarrow> npfloat \<Rightarrow> npfloat" where
  "np_add NaN y = NaN"
| "np_add x NaN = NaN"
| "np_add (Fin a) (Fin b) = Fin (a + b)"
| "np_add (Fin a) y = y"
| "np_add x (Fin b) = x"
| "np_add x y = (if x = y then x else NaN)"

fun np_le :: "npfloat \<Rightarrow> npfloat \<Rightarrow> bool" where
  "np_le (Fin a) (Fin b) = (a \<le> b)"
| "np_le NInf y = (y \<noteq> NaN)"
| "np_le x PInf = (x \<noteq> NaN)"
| "np_le x y = False"

definition np_max2 :: "npfloat \<Rightarrow> npfloat \<Rightarrow> npfloat" where
  "np_max2 a b = (if np_le a b then b else a)"

text \<open>\<open>Series.max()\<close>: the missing values are skipped; a series without a value gives \<open>nan\<close>.\<close>

definition series_max :: "npfloat list \<Rightarrow> npfloat" where
  "series_max xs =
     (case filter (\<lambda>x. x \<noteq> NaN) xs of [] \<Rightarrow> NaN | y # ys \<Rightarrow> fold np_max2 ys y)"

text \<open>\<open>Series.abs().max()\<close>\<close>

definition abs_max :: "npfloat list \<Rightarrow> npfloat" where
  "abs_max xs = series_max (map np_abs xs)"

text \<open>
  A number a caller hands over is a Python number or a numpy scalar (\<open>numpy.float64\<close> is
  a subclass of \<open>float\<close>), and the two divide differently.
\<close>

datatype scalar = Py npfloat | Np npfloat

text \<open>The quotient a division returns: the IEEE quotient, of the dividend's kind.\<close>

fun scalar_quotient :: "scalar \<Rightarrow> npfloat \<Rightarrow> scalar" where
  "scalar_quotient (Py a) b = Py (np_div a b)"
| "scalar_quotient (Np a) b = Np (np_div a b)"

text \<open>
  The division \<open>x / s\<close> of \<open>links_threshold[key] / s\<close>, where only the divisor has been
  converted by \<open>s = float(...)\<close>. A Python dividend over a zero divisor raises; a numpy
  dividend takes the division over and returns \<open>inf\<close> or \<open>nan\<close>.
\<close>

fun truediv :: "scalar \<Rightarrow> npfloat \<Rightarrow> error + scalar" where
  "truediv (Py a) b = (if b = Fin 0 then Inl ZeroDivisionError else Inr (scalar_quotient (Py a) b))"
| "truediv (Np a) b = Inr (scalar_quotient (Np a) b)"

fun map_err :: "('a \<Rightarrow> error + 'b) \<Rightarrow> 'a list \<Rightarrow> error + 'b list" where
  "map_err f [] = Inr []"
| "map_err f (x # xs) =
     (case f x of
        Inl e \<Rightarrow> Inl e
      | Inr y \<Rightarrow> (case map_err f xs of Inl e \<Rightarrow> Inl e | Inr ys \<Rightarrow> Inr (y # ys)))"

section \<open>Data model\<close>

text \<open>
  A data frame is its column names and its rows. The columns the code reads by a fixed
  name or position are fields of the row; the numeric (metric) columns are held by name in
  \<open>cells\<close>, and a cell that is missing there is the unset value \<open>nan\<close>.

  The node list always has the columns \<open>event_col\<close>, \<open>active\<close>, \<open>alias\<close>, \<open>parent\<close> and
  \<open>changed_name\<close>; \<open>ncolumns\<close> lists its other, numeric columns, and the metric keys of the
  program (\<open>get_nodelist_cols\<close>, degree keys, threshold keys) are taken not to name one of
  the five. The edge list is addressed by position, so \<open>ecolumns\<close> is its whole column list:
  source, target, then the numeric columns, and \<open>type\<close> and \<open>weight_norm\<close> once they are set.
\<close>

type_synonym cells = "(string \<times> npfloat) list"

definition cell :: "cells \<Rightarrow> string \<Rightarrow> npfloat" where
  "cell m k = (case map_of m k of None \<Rightarrow> NaN | Some v \<Rightarrow> v)"

text \<open>
  A threshold mapping is a dictionary, iterated in insertion order: the list of its items,
  whose keys are distinct.
\<close>

type_synonym threshold = "(string \<times> scalar) list"

record log_row =
  event :: "string option"
  user_id :: string
  event_timestamp :: int

record node_row =
  n_index :: int
  n_name :: string
  n_active :: bool
  n_alias :: "string option"
  n_parent :: "string option"
  n_changed_name :: "string option"
  n_cells :: cells

record nodeframe =
  ncolumns :: "string list"
  nrows :: "node_row list"

record edge_row =
  e_source :: string
  e_target :: string
  e_cells :: cells
  e_type :: "string option"
  e_weight_norm :: npfloat

record edgeframe =
  ecolumns :: "string list"
  erows :: "edge_row list"

text \<open>
  The explorer \<open>self.rete\<close> is a collaborator handed to the constructor: its raw log, its
  configuration and its construction routines are parameters of the model. \<open>event_col\<close> is
  \<open>config["event_col"]\<close>, and \<open>config\<close> holds the entries read with \<open>config.get\<close>.
\<close>

record rete =
  event_col :: string
  config :: "(string \<times> string) list"
  clickstream :: "log_row list"
  create_nodelist :: "log_row list \<Rightarrow> nodeframe"
  create_edgelist :: "log_row list \<Rightarrow> edgeframe"
  get_nodelist_cols :: "string list"
  get_nodelist_default_col :: string
  get_edgelist_default_col :: string
  get_custom_cols :: "string list"

record degree =
  d_degree :: npfloat
  d_source :: npfloat

text \<open>
  \<open>PreparedNode\<close>. In an edit received from the client the key \<open>changed_name\<close> may be
  missing, which is the outer \<open>None\<close>.
\<close>

record prepared_node =
  p_index :: int
  p_name :: string
  p_degree :: "(string \<times> degree) list"
  p_changed_name :: "string option option"
  p_type :: string
  p_x :: "npfloat option"
  p_y :: "npfloat option"
  p_active :: bool
  p_alias :: "string option"
  p_parent :: "string option"

record weight =
  w_weight_norm :: npfloat
  w_weight :: npfloat

record prepared_link =
  sourceIndex :: int
  targetIndex :: int
  weights :: "(string \<times> weight) list"
  l_type :: "string option"

record layout_node =
  ln_name :: string
  ln_x :: real
  ln_y :: real

text \<open>\<open>GraphSettings\<close>: every key may be missing, which is \<open>None\<close>.\<close>

record settings =
  gs_show_weights :: "bool option"
  gs_show_percents :: "bool option"
  gs_show_nodes_names :: "bool option"
  gs_show_all_edges_for_targets :: "bool option"
  gs_show_nodes_without_links :: "bool option"
  gs_nodes_threshold :: "threshold option"
  gs_links_threshold :: "threshold option"

record session =
  nodelist :: nodeframe
  edgelist :: edgeframe
  layout :: "layout_node list option"
  updates :: "prepared_node list"
  graph_updates :: "layout_node list"
  graph_settings :: settings

section \<open>Recomputation\<close>

definition replace_grouped_events :: "node_row list \<Rightarrow> log_row \<Rightarrow> log_row" where
  "replace_grouped_events grouped row =
     (case filter (\<lambda>g. Some (n_name g) = event row) grouped of
        [] \<Rightarrow> row
      | m # _ \<Rightarrow> row\<lparr>event := n_parent m\<rparr>)"

text \<open>The event name that \<open>_replace_grouped_events\<close> leaves in a row of the event \<open>e\<close>.\<close>

definition group_name :: "node_row list \<Rightarrow> string \<Rightarrow> string option" where
  "group_name grouped e = event (replace_grouped_events grouped \<lparr>event = Some e, user_id = [], event_timestamp = 0\<rparr>)"

fun copy_cols :: "string list \<Rightarrow> node_row \<Rightarrow> string list \<Rightarrow> node_row \<Rightarrow> error + node_row" where
  "copy_cols rc m [] row = Inr row"
| "copy_cols rc m (col # cols) row =
     (if col \<in> set rc
      then copy_cols rc m cols (row\<lparr>n_cells := AList.update col (cell (n_cells m) col) (n_cells row)\<rparr>)
      else Inl KeyError)"

definition update_node_after_recalc :: "rete \<Rightarrow> nodeframe \<Rightarrow> node_row \<Rightarrow> error + node_row" where
  "update_node_after_recalc r recalculated_nodelist row =
     (case filter (\<lambda>m. n_name m = n_name row) (nrows recalculated_nodelist) of
        [] \<Rightarrow> Inr row
      | m # _ \<Rightarrow> copy_cols (ncolumns recalculated_nodelist) m (get_nodelist_cols r) row)"

definition active_rows :: "nodeframe \<Rightarrow> node_row list" where
  "active_rows nl = filter n_active (nrows nl)"

definition grouped_rows :: "nodeframe \<Rightarrow> node_row list" where
  "grouped_rows nl = filter (\<lambda>g. n_parent g \<noteq> None \<and> n_active g) (nrows nl)"

text \<open>The log with the disabled events removed.\<close>

definition filtered_clickstream :: "rete \<Rightarrow> nodeframe \<Rightarrow> log_row list" where
  "filtered_clickstream r nl =
     filter (\<lambda>x. event x \<in> Some ` set (map n_name (active_rows nl))) (clickstream r)"

definition updated_clickstream :: "rete \<Rightarrow> nodeframe \<Rightarrow> log_row list" where
  "updated_clickstream r nl =
     map (replace_grouped_events (grouped_rows nl)) (filtered_clickstream r nl)"

text \<open>
  \<open>DataFrame.apply\<close> over the rows builds the new node list from the rows returned: a
  column written into a matched row that the frame did not have becomes a column of it.
\<close>

definition recalculated_columns :: "rete \<Rightarrow> nodeframe \<Rightarrow> nodeframe \<Rightarrow> string list" where
  "recalculated_columns r recalculated_nodelist nl =
     (if \<exists>row \<in> set (nrows nl). \<exists>m \<in> set (nrows recalculated_nodelist). n_name m = n_name row
      then ncolumns nl @ filter (\<lambda>c. c \<notin> set (ncolumns nl)) (remdups (get_nodelist_cols r))
      else ncolumns nl)"

definition recalculate :: "rete \<Rightarrow> session \<Rightarrow> (error + unit) \<times> session" where
  "recalculate r s =
     (let curr_nodelist = nodelist s;
          upd = updated_clickstream r curr_nodelist;
          recalculated_nodelist = create_nodelist r upd;
          recalculated_edgelist = create_edgelist r upd
      in case map_err (update_node_after_recalc r recalculated_nodelist) (nrows curr_nodelist) of
           Inl e \<Rightarrow> (Inl e, s)
         | Inr rows \<Rightarrow>
             (Inr (),
              s\<lparr>nodelist := \<lparr>ncolumns = recalculated_columns r recalculated_nodelist curr_nodelist,
                              nrows = rows\<rparr>,
                edgelist := recalculated_edgelist\<rparr>))"


section \<open>Edits\<close>

definition add_column :: "string \<Rightarrow> string list \<Rightarrow> string list" where
  "add_column c cols = (if c \<in> set cols then cols else cols @ [c])"

text \<open>The found path of \<open>_on_nodelist_updated\<close>: the writes of \<open>nodelist.at[index, ...]\<close>.\<close>

definition edit_row :: "prepared_node \<Rightarrow> node_row \<Rightarrow> node_row" where
  "edit_row node row =
     row\<lparr>n_active := p_active node,
         n_parent := p_parent node,
         n_changed_name := (case p_changed_name node of None \<Rightarrow> n_changed_name row | Some c \<Rightarrow> c),
         n_cells := fold (\<lambda>(col, value). AList.update col (d_source value)) (p_degree node) (n_cells row)\<rparr>"

text \<open>
  The insert path: the row is assembled from the declared columns, and a degree metric
  that is no column of the node list is left out.
\<close>

definition new_row :: "string list \<Rightarrow> prepared_node \<Rightarrow> node_row" where
  "new_row cols node =
     \<lparr>n_index = p_index node,
      n_name = p_name node,
      n_active = p_active node,
      n_alias = p_alias node,
      n_parent = p_parent node,
      n_changed_name = (case p_changed_name node of None \<Rightarrow> None | Some c \<Rightarrow> c),
      n_cells = concat (map (\<lambda>key. case map_of (p_degree node) key of
                                        None \<Rightarrow> []
                                      | Some value \<Rightarrow> [(key, d_source value)]) cols)\<rparr>"

definition update_node :: "nodeframe \<Rightarrow> prepared_node \<Rightarrow> nodeframe" where
  "update_node nl node =
     (case map n_index (filter (\<lambda>row. n_name row = p_name node) (nrows nl)) of
        index # _ \<Rightarrow>
          \<lparr>ncolumns = fold add_column (map fst (p_degree node)) (ncolumns nl),
           nrows = map (\<lambda>row. if n_index row = index then edit_row node row else row) (nrows nl)\<rparr>
      | [] \<Rightarrow>
          (let row = new_row (ncolumns nl) node in
           if \<exists>old \<in> set (nrows nl). n_index old = p_index node
           then nl\<lparr>nrows := map (\<lambda>old. if n_index old = p_index node then row else old) (nrows nl)\<rparr>
           else nl\<lparr>nrows := nrows nl @ [row]\<rparr>))"

definition on_nodelist_updated :: "session \<Rightarrow> prepared_node list \<Rightarrow> session" where
  "on_nodelist_updated s nodes = s\<lparr>updates := nodes, nodelist := fold (\<lambda>node nl. update_node nl node) nodes (nodelist s)\<rparr>"

definition on_graph_settings_request :: "session \<Rightarrow> settings \<Rightarrow> session" where
  "on_graph_settings_request s new_settings = s\<lparr>graph_settings := new_settings\<rparr>"

definition on_layout_request :: "session \<Rightarrow> layout_node list \<Rightarrow> session" where
  "on_layout_request s layout_nodes = s\<lparr>graph_updates := layout_nodes, layout := Some layout_nodes\<rparr>"

section \<open>Payload\<close>

definition dict_of :: "(string \<times> 'v) list \<Rightarrow> (string \<times> 'v) list" where
  "dict_of kvs = fold (\<lambda>(k, v). AList.update k v) kvs []"

definition node_column :: "nodeframe \<Rightarrow> string \<Rightarrow> error + npfloat list" where
  "node_column nl key =
     (if key \<in> set (ncolumns nl) then Inr (map (\<lambda>row. cell (n_cells row) key) (nrows nl))
      else Inl KeyError)"

definition node_degree :: "nodeframe \<Rightarrow> node_row \<Rightarrow> string \<Rightarrow> error + string \<times> degree" where
  "node_degree nl row weight_col =
     (case node_column nl weight_col of
        Inl e \<Rightarrow> Inl e
      | Inr col \<Rightarrow>
          (let max_degree = series_max col;
               value = cell (n_cells row) weight_col
           in Inr (weight_col,
                   \<lparr>d_degree = np_add (np_mul (np_div (np_abs value) (np_abs max_degree)) (Fin 30)) (Fin 4),
                    d_source = value\<rparr>)))"

definition node_type :: "(string \<times> string) list option \<Rightarrow> string \<Rightarrow> string" where
  "node_type node_params node_name =
     (case node_params of
        None \<Rightarrow> ''suit''
      | Some params \<Rightarrow>
          (case map_of params node_name of
             None \<Rightarrow> ''suit''
           | Some t \<Rightarrow> if t = [] then ''suit'' else t))"

type_synonym position = "(string \<times> npfloat \<times> npfloat) list"

definition prepare_node ::
  "rete \<Rightarrow> nodeframe \<Rightarrow> (string \<times> string) list option \<Rightarrow> position option \<Rightarrow> nat \<times> string
     \<Rightarrow> error + prepared_node" where
  "prepare_node r nl node_params pos = (\<lambda>(idx, node_name).
     (case filter (\<lambda>row. n_name row = node_name) (nrows nl) of
        [] \<Rightarrow> Inl IndexError
      | row # _ \<Rightarrow>
          (case map_err (node_degree nl row) (get_nodelist_cols r) of
             Inl e \<Rightarrow> Inl e
           | Inr deg \<Rightarrow>
               (let node_pos = (case pos of None \<Rightarrow> None | Some p \<Rightarrow> map_of p node_name)
                in Inr \<lparr>p_index = int idx,
                        p_name = node_name,
                        p_degree = dict_of deg,
                        p_changed_name = Some None,
                        p_type = node_type node_params node_name @ ''_node'',
                        p_x = map_option fst node_pos,
                        p_y = map_option snd node_pos,
                        p_active = n_active row,
                        p_alias = n_alias row,
                        p_parent = n_parent row\<rparr>))))"

text \<open>
  \<open>set(nodelist[event_col])\<close> is iterated in an order Python does not specify; the order of
  first occurrence stands for it.
\<close>

definition prepare_nodes ::
  "rete \<Rightarrow> nodeframe \<Rightarrow> (string \<times> string) list option \<Rightarrow> position option
     \<Rightarrow> error + prepared_node list \<times> (string \<times> prepared_node) list" where
  "prepare_nodes r nl node_params pos =
     (case map_err (prepare_node r nl node_params pos) (enumerate 0 (remdups (map n_name (nrows nl)))) of
        Inl e \<Rightarrow> Inl e
      | Inr nodes \<Rightarrow> Inr (nodes, map (\<lambda>n. (p_name n, n)) nodes))"

definition edge_cell :: "edge_row \<Rightarrow> string \<Rightarrow> npfloat" where
  "edge_cell row key = (if key = ''weight_norm'' then e_weight_norm row else cell (e_cells row) key)"

text \<open>
  A column of the edge list read as numbers: a name that is no column is a \<open>KeyError\<close>, and
  the source, target and \<open>type\<close> columns hold strings, on which \<open>abs\<close> is a \<open>TypeError\<close>.
\<close>

definition edge_column :: "edgeframe \<Rightarrow> string \<Rightarrow> error + npfloat list" where
  "edge_column el key =
     (if key \<notin> set (ecolumns el) then Inl KeyError
      else if key \<in> set (take 2 (ecolumns el)) \<or> key = ''type'' then Inl TypeError
      else Inr (map (\<lambda>row. edge_cell row key) (erows el)))"

definition set_type :: "edgeframe \<Rightarrow> (edge_row \<Rightarrow> string option) \<Rightarrow> edgeframe" where
  "set_type el f =
     \<lparr>ecolumns = add_column ''type'' (ecolumns el),
      erows = map (\<lambda>row. row\<lparr>e_type := f row\<rparr>) (erows el)\<rparr>"

definition set_weight_norm :: "edgeframe \<Rightarrow> string \<Rightarrow> npfloat \<Rightarrow> edgeframe" where
  "set_weight_norm el weight_col m =
     \<lparr>ecolumns = add_column ''weight_norm'' (ecolumns el),
      erows = map (\<lambda>row. row\<lparr>e_weight_norm := np_div (edge_cell row weight_col) m\<rparr>) (erows el)\<rparr>"

definition custom_weight :: "edgeframe \<Rightarrow> edge_row \<Rightarrow> string \<Rightarrow> error + string \<times> weight" where
  "custom_weight el row custom_weight_col =
     (case edge_column el custom_weight_col of
        Inl e \<Rightarrow> Inl e
      | Inr col \<Rightarrow>
          Inr (custom_weight_col,
               \<lparr>w_weight_norm = np_div (edge_cell row custom_weight_col) (abs_max col),
                w_weight = edge_cell row custom_weight_col\<rparr>))"

text \<open>One row of the loop of \<open>_prepare_edges\<close>; \<open>None\<close> is a row that appends nothing.\<close>

definition prepare_edge ::
  "rete \<Rightarrow> edgeframe \<Rightarrow> string \<Rightarrow> (string \<times> prepared_node) list \<Rightarrow> edge_row
     \<Rightarrow> error + prepared_link option" where
  "prepare_edge r el weight_col nodes_set row =
     (case map_err (custom_weight el row) (get_custom_cols r) of
        Inl e \<Rightarrow> Inl e
      | Inr custom \<Rightarrow>
          (let default_col_weight = \<lparr>w_weight_norm = e_weight_norm row, w_weight = edge_cell row weight_col\<rparr>;
               ws = dict_of ((get_nodelist_default_col r, default_col_weight) # custom)
           in case map_of nodes_set (e_source row) of
                None \<Rightarrow> Inr None
              | Some source_node \<Rightarrow>
                  (case map_of nodes_set (e_target row) of
                     None \<Rightarrow> Inr None
                   | Some target_node \<Rightarrow>
                       if ''type'' \<in> set (ecolumns el)
                       then Inr (Some \<lparr>sourceIndex = p_index source_node,
                                       targetIndex = p_index target_node,
                                       weights = ws,
                                       l_type = e_type row\<rparr>)
                       else Inl KeyError)))"

text \<open>
  \<open>_prepare_edges\<close> writes the column \<open>weight_norm\<close> into the frame it is given, so the frame
  is returned with the result, also when the loop raises afterwards.
\<close>

definition prepare_edges ::
  "rete \<Rightarrow> edgeframe \<Rightarrow> (string \<times> prepared_node) list \<Rightarrow> (error + prepared_link list) \<times> edgeframe" where
  "prepare_edges r el nodes_set =
     (if length (ecolumns el) < 3 then (Inl IndexError, el)
      else
        (let weight_col = ecolumns el ! 2 in
         case edge_column el weight_col of
           Inl e \<Rightarrow> (Inl e, el)
         | Inr col \<Rightarrow>
             (let el' = set_weight_norm el weight_col (abs_max col) in
              (case map_err (prepare_edge r el' weight_col nodes_set) (erows el') of
                 Inl e \<Rightarrow> Inl e
               | Inr edges \<Rightarrow> Inr (List.map_filter id edges),
               el'))))"

record payload =
  nodes :: "prepared_node list"
  links :: "prepared_link list"

definition on_recalc_request :: "rete \<Rightarrow> session \<Rightarrow> prepared_node list \<Rightarrow> (error + payload) \<times> session" where
  "on_recalc_request r s nds =
     (case recalculate r (on_nodelist_updated (s\<lparr>updates := nds\<rparr>) nds) of
        (Inl e, s2) \<Rightarrow> (Inl e, s2)
      | (Inr _, s2) \<Rightarrow>
          (let s3 = s2\<lparr>edgelist := set_type (edgelist s2) (\<lambda>_. Some ''suit'')\<rparr> in
           case prepare_nodes r (nodelist s3) None None of
             Inl e \<Rightarrow> (Inl e, s3)
           | Inr (ns, nodes_set) \<Rightarrow>
               (case prepare_edges r (edgelist s3) nodes_set of
                  (Inl e, el) \<Rightarrow> (Inl e, s3\<lparr>edgelist := el\<rparr>)
                | (Inr ls, el) \<Rightarrow> (Inr \<lparr>nodes = ns, links = ls\<rparr>, s3\<lparr>edgelist := el\<rparr>))))"

section \<open>Thresholds\<close>

fun norm_nodes_loop :: "nodeframe \<Rightarrow> threshold \<Rightarrow> threshold \<Rightarrow> error + threshold" where
  "norm_nodes_loop nl [] normed = Inr normed"
| "norm_nodes_loop nl ((key, v) # rest) normed =
     (case node_column nl key of
        Inl e \<Rightarrow> Inl e
      | Inr col \<Rightarrow>
          (case truediv v (abs_max col) of
             Inl e \<Rightarrow> Inl e
           | Inr q \<Rightarrow> norm_nodes_loop nl rest (AList.update key q normed)))"

definition get_norm_node_threshold :: "session \<Rightarrow> threshold option \<Rightarrow> (error + threshold option) \<times> session" where
  "get_norm_node_threshold s nodes_threshold =
     (case nodes_threshold of
        None \<Rightarrow> (Inr None, s)
      | Some t \<Rightarrow>
          (case norm_nodes_loop (nodelist s) t [] of
             Inl e \<Rightarrow> (Inl e, s)
           | Inr normed \<Rightarrow> (Inr (Some normed), s)))"

fun norm_links_loop :: "rete \<Rightarrow> edgeframe \<Rightarrow> npfloat \<Rightarrow> threshold \<Rightarrow> threshold \<Rightarrow> error + threshold" where
  "norm_links_loop r el scale [] normed = Inr normed"
| "norm_links_loop r el scale ((key, v) # rest) normed =
     (if key = get_nodelist_default_col r
      then (case truediv v scale of
              Inl e \<Rightarrow> Inl e
            | Inr q \<Rightarrow> norm_links_loop r el scale rest (AList.update (get_nodelist_default_col r) q normed))
      else (case edge_column el key of
              Inl e \<Rightarrow> Inl e
            | Inr col \<Rightarrow>
                (case truediv v (abs_max col) of
                   Inl e \<Rightarrow> Inl e
                 | Inr q \<Rightarrow> norm_links_loop r el scale rest (AList.update key q normed))))"

definition get_norm_link_threshold ::
  "rete \<Rightarrow> session \<Rightarrow> threshold option \<Rightarrow> (error + threshold option) \<times> session" where
  "get_norm_link_threshold r s links_threshold =
     (case edge_column (edgelist s) (get_edgelist_default_col r) of
        Inl e \<Rightarrow> (Inl e, s)
      | Inr col \<Rightarrow>
          (case links_threshold of
             None \<Rightarrow> (Inr None, s)
           | Some t \<Rightarrow>
               (case norm_links_loop r (edgelist s) (abs_max col) t [] of
                  Inl e \<Rightarrow> (Inl e, s)
                | Inr normed \<Rightarrow> (Inr (Some normed), s))))"

section \<open>Layout\<close>

text \<open>
  \<open>networkx.spring_layout\<close> is a library routine: a parameter, from the weighted edges to
  a finite position for each node of the graph.
\<close>

type_synonym spring_layout = "(string \<times> string \<times> npfloat) list \<Rightarrow> (string \<times> real \<times> real) list"

text \<open>Python's \<open>min\<close> and \<open>max\<close> of a list, which raise on the empty list.\<close>

fun py_min :: "real list \<Rightarrow> error + real" where
  "py_min [] = Inl ValueError"
| "py_min (x # xs) = Inr (fold min xs x)"

fun py_max :: "real list \<Rightarrow> error + real" where
  "py_max [] = Inl ValueError"
| "py_max (x # xs) = Inr (fold max xs x)"

definition rescale :: "real \<Rightarrow> real \<Rightarrow> int \<Rightarrow> real \<Rightarrow> real \<Rightarrow> npfloat" where
  "rescale lo hi extent margin v =
     np_add (np_mul (np_div (Fin (v - lo)) (Fin (hi - lo))) (Fin (real_of_int extent))) (Fin margin)"

text \<open>The weighted edges handed to \<open>G.add_weighted_edges_from\<close>.\<close>

definition graph_edges :: "edgeframe \<Rightarrow> (string \<times> string \<times> npfloat) list" where
  "graph_edges el = map (\<lambda>row. (e_source row, e_target row, edge_cell row (ecolumns el ! 2))) (erows el)"

definition calc_layout :: "spring_layout \<Rightarrow> edgeframe \<Rightarrow> int \<Rightarrow> int \<Rightarrow> error + position" where
  "calc_layout spring el width height =
     (if length (ecolumns el) < 3 then Inl IndexError
      else
        (let pos_new = spring (graph_edges el)
         in case (py_min (map (\<lambda>(i, j). fst j) pos_new), py_min (map (\<lambda>(i, j). snd j) pos_new),
                  py_max (map (\<lambda>(i, j). fst j) pos_new), py_max (map (\<lambda>(i, j). snd j) pos_new)) of
              (Inr min_x, Inr min_y, Inr max_x, Inr max_y) \<Rightarrow>
                Inr (map (\<lambda>(i, j). (i, rescale min_x max_x (width - 150) 75 (fst j),
                                        rescale min_y max_y (height - 100) 50 (snd j))) pos_new)
            | _ \<Rightarrow> Inl ValueError))"

text \<open>\<open>matched["x"].item()\<close> raises a \<open>ValueError\<close> unless exactly one row matched.\<close>

definition use_layout :: "session \<Rightarrow> position \<Rightarrow> error + position" where
  "use_layout s position =
     (case layout s of
        None \<Rightarrow> Inr position
      | Some lay \<Rightarrow>
          map_err (\<lambda>(node_name, xy).
                     case filter (\<lambda>l. ln_name l = node_name) lay of
                       [] \<Rightarrow> Inr (node_name, xy)
                     | [m] \<Rightarrow> Inr (node_name, Fin (ln_x m), Fin (ln_y m))
                     | _ \<Rightarrow> Inl ValueError) position)"

definition edge_type :: "(string \<times> string) list \<Rightarrow> edge_row \<Rightarrow> string option" where
  "edge_type node_params x =
     (if map_of node_params (e_source x) = Some ''source'' then map_of node_params (e_source x)
      else (case map_of node_params (e_target x) of
              None \<Rightarrow> Some ''suit''
            | Some t \<Rightarrow> if t = [] then Some ''suit'' else Some t))"

text \<open>
  \<open>_make_template_data\<close> works on copies of the two frames, so the session it returns is
  the one it was given.
\<close>

definition make_template_data ::
  "spring_layout \<Rightarrow> rete \<Rightarrow> session \<Rightarrow> (string \<times> string) list \<Rightarrow> int \<Rightarrow> int
     \<Rightarrow> (error + prepared_node list \<times> prepared_link list) \<times> session" where
  "make_template_data spring r s node_params width height =
     (let el = set_type (edgelist s) (edge_type node_params);
          nl = nodelist s
      in (case calc_layout spring el width height of
            Inl e \<Rightarrow> Inl e
          | Inr computed \<Rightarrow>
              (case use_layout s computed of
                 Inl e \<Rightarrow> Inl e
               | Inr pos \<Rightarrow>
                   (case prepare_nodes r nl (Some node_params) (Some pos) of
                      Inl e \<Rightarrow> Inl e
                    | Inr (ns, nodes_set) \<Rightarrow>
                        (case fst (prepare_edges r el nodes_set) of
                           Inl e \<Rightarrow> Inl e
                         | Inr ls \<Rightarrow> Inr (ns, ls)))),
          s))"

text \<open>The positions \<open>spring_layout\<close> returns inside \<open>_make_template_data\<close>.\<close>

abbreviation template_positions ::
  "spring_layout \<Rightarrow> session \<Rightarrow> (string \<times> string) list \<Rightarrow> (string \<times> real \<times> real) list" where
  "template_positions spring s node_params \<equiv>
     spring (graph_edges (set_type (edgelist s) (edge_type node_params)))"

section \<open>Plotting\<close>

definition apply_settings ::
  "session \<Rightarrow> bool option \<Rightarrow> bool option \<Rightarrow> bool option \<Rightarrow> bool option \<Rightarrow> bool option \<Rightarrow> settings" where
  "apply_settings s show_weights show_percents show_nodes_names show_all_edges_for_targets
       show_nodes_without_links =
     (let st = graph_settings s;
          st = (case show_weights of None \<Rightarrow> st | Some b \<Rightarrow> st\<lparr>gs_show_weights := Some b\<rparr>);
          st = (case show_percents of None \<Rightarrow> st | Some b \<Rightarrow> st\<lparr>gs_show_percents := Some b\<rparr>);
          st = (case show_nodes_names of None \<Rightarrow> st | Some b \<Rightarrow> st\<lparr>gs_show_nodes_names := Some b\<rparr>);
          st = (case show_all_edges_for_targets of None \<Rightarrow> st
                | Some b \<Rightarrow> st\<lparr>gs_show_all_edges_for_targets := Some b\<rparr>);
          st = (case show_nodes_without_links of None \<Rightarrow> st
                | Some b \<Rightarrow> st\<lparr>gs_show_nodes_without_links := Some b\<rparr>)
      in st)"

definition make_node_params :: "rete \<Rightarrow> (string \<times> string) list option \<Rightarrow> (string \<times> string) list" where
  "make_node_params r targets =
     (case targets of
        Some ts \<Rightarrow>
          map (\<lambda>(k, v). (k, if v = ''red'' then ''bad_target''
                            else if v = ''green'' then ''nice_target'' else v)) ts
      | None \<Rightarrow>
          fold (\<lambda>(key, val) node_params.
                  case map_of (config r) key of
                    None \<Rightarrow> node_params
                  | Some name \<Rightarrow> AList.update name val node_params)
               [(''positive_target_event'', ''nice_target''),
                (''negative_target_event'', ''bad_target''),
                (''source_event'', ''source'')] [])"

text \<open>The data \<open>plot_graph\<close> hands to the templates; the rendering itself is not modelled.\<close>

record graph_data =
  g_nodes :: "prepared_node list"
  g_links :: "prepared_link list"
  g_node_params :: "(string \<times> string) list"
  g_settings :: settings
  g_nodes_threshold :: "threshold option"
  g_links_threshold :: "threshold option"

text \<open>
  \<open>plot_graph\<close> up to the template data. A threshold the settings hold is taken as it is
  stored, and the requested one is then neither normalized nor looked at.
\<close>

definition plot_graph ::
  "spring_layout \<Rightarrow> rete \<Rightarrow> session \<Rightarrow> (string \<times> string) list option \<Rightarrow> int \<Rightarrow> int
     \<Rightarrow> bool option \<Rightarrow> bool option \<Rightarrow> bool option \<Rightarrow> bool option \<Rightarrow> bool option
     \<Rightarrow> threshold option \<Rightarrow> threshold option \<Rightarrow> (error + graph_data) \<times> session" where
  "plot_graph spring r s targets width height show_weights show_percents show_nodes_names
       show_all_edges_for_targets show_nodes_without_links nodes_threshold links_threshold =
     (let st = apply_settings s show_weights show_percents show_nodes_names
                 show_all_edges_for_targets show_nodes_without_links;
          node_params = make_node_params r targets
      in case (case gs_nodes_threshold st of
                 Some stored \<Rightarrow> (Inr (Some stored), s)
               | None \<Rightarrow> get_norm_node_threshold s nodes_threshold) of
           (Inl e, s1) \<Rightarrow> (Inl e, s1)
         | (Inr norm_nodes_threshold, s1) \<Rightarrow>
             (case (case gs_links_threshold st of
                      Some stored \<Rightarrow> (Inr (Some stored), s1)
                    | None \<Rightarrow> get_norm_link_threshold r s1 links_threshold) of
                (Inl e, s2) \<Rightarrow> (Inl e, s2)
              | (Inr norm_links_threshold, s2) \<Rightarrow>
                  (case make_template_data spring r s2 node_params width height of
                     (Inl e, s3) \<Rightarrow> (Inl e, s3)
                   | (Inr (ns, ls), s3) \<Rightarrow>
                       (Inr \<lparr>g_nodes = ns, g_links = ls, g_node_params = node_params,
                             g_settings = st, g_nodes_threshold = norm_nodes_threshold,
                             g_links_threshold = norm_links_threshold\<rparr>, s3))))"

section \<open>An explorer\<close>

text \<open>
  Modelled from the spec: the construction routines of the Explorer (\<open>create_nodelist\<close>,
  \<open>create_edgelist\<close> and the schema accessors of \<open>ReteExplorer\<close>), which are not among the
  sources. Following the specification, the nodes are the distinct event names of the log
  with their number of occurrences, and the edges are the distinct transitions between
  consecutive events of one user with theirs. The column names are chosen here. Only the
  concrete examples use this explorer: the theorems take the explorer as a parameter.
\<close>

definition user_events :: "log_row list \<Rightarrow> string \<Rightarrow> string list" where
  "user_events lg u = concat (map (\<lambda>x. case event x of None \<Rightarrow> [] | Some e \<Rightarrow> [e]) (filter (\<lambda>x. user_id x = u) lg))"

definition transitions :: "log_row list \<Rightarrow> (string \<times> string) list" where
  "transitions lg = concat (map (\<lambda>u. zip (user_events lg u) (tl (user_events lg u))) (remdups (map user_id lg)))"

definition explorer_edgelist :: "log_row list \<Rightarrow> edgeframe" where
  "explorer_edgelist lg =
     \<lparr>ecolumns = [''event'', ''next_event'', ''edge_weight''],
      erows = map (\<lambda>t. \<lparr>e_source = fst t, e_target = snd t,
                        e_cells = [(''edge_weight'', Fin (real (count_list (transitions lg) t)))],
                        e_type = None, e_weight_norm = NaN\<rparr>)
                  (remdups (transitions lg))\<rparr>"

definition log_events :: "log_row list \<Rightarrow> string list" where
  "log_events lg = concat (map (\<lambda>x. case event x of None \<Rightarrow> [] | Some e \<Rightarrow> [e]) lg)"

definition explorer_nodelist :: "log_row list \<Rightarrow> nodeframe" where
  "explorer_nodelist lg =
     \<lparr>ncolumns = [''number_of_events''],
      nrows = map (\<lambda>(i, e). \<lparr>n_index = int i, n_name = e, n_active = True, n_alias = None,
                             n_parent = None, n_changed_name = None,
                             n_cells = [(''number_of_events'', Fin (real (count_list (log_events lg) e)))]\<rparr>)
                  (enumerate 0 (remdups (log_events lg)))\<rparr>"

definition explorer :: "log_row list \<Rightarrow> rete" where
  "explorer lg =
     \<lparr>event_col = ''event'',
      config = [],
      clickstream = lg,
      create_nodelist = explorer_nodelist,
      create_edgelist = explorer_edgelist,
      get_nodelist_cols = [''number_of_events''],
      get_nodelist_default_col = ''number_of_events'',
      get_edgelist_default_col = ''edge_weight'',
      get_custom_cols = []\<rparr>"


section \<open>Concrete sessions\<close>

definition no_settings :: settings where
  "no_settings =
     \<lparr>gs_show_weights = None, gs_show_percents = None, gs_show_nodes_names = None,
      gs_show_all_edges_for_targets = None, gs_show_nodes_without_links = None,
      gs_nodes_threshold = None, gs_links_threshold = None\<rparr>"

text \<open>
  A chain of groups: \<open>C\<close> is grouped under \<open>B\<close>, \<open>B\<close> under \<open>A\<close>, and \<open>D\<close> under a name that
  is no node. The node \<open>B\<close> has been placed by hand.
\<close>

definition chain_log :: "log_row list" where
  "chain_log =
     [\<lparr>event = Some ''B'', user_id = ''u'', event_timestamp = 1\<rparr>,
      \<lparr>event = Some ''A'', user_id = ''u'', event_timestamp = 2\<rparr>,
      \<lparr>event = Some ''C'', user_id = ''u'', event_timestamp = 3\<rparr>,
      \<lparr>event = Some ''D'', user_id = ''u'', event_timestamp = 4\<rparr>]"

definition chain_node :: "int \<Rightarrow> string \<Rightarrow> string option \<Rightarrow> node_row" where
  "chain_node i n p =
     \<lparr>n_index = i, n_name = n, n_active = True, n_alias = None, n_parent = p,
      n_changed_name = None, n_cells = [(''number_of_events'', Fin 1)]\<rparr>"

definition chain_nodelist :: nodeframe where
  "chain_nodelist =
     \<lparr>ncolumns = [''number_of_events''],
      nrows = [chain_node 0 ''A'' None, chain_node 1 ''B'' (Some ''A''),
               chain_node 2 ''C'' (Some ''B''), chain_node 3 ''D'' (Some ''G'')]\<rparr>"

definition chain_session :: session where
  "chain_session =
     \<lparr>nodelist = chain_nodelist, edgelist = explorer_edgelist chain_log,
      layout = Some [\<lparr>ln_name = ''B'', ln_x = 10, ln_y = 20\<rparr>],
      updates = [], graph_updates = [], graph_settings = no_settings\<rparr>"

text \<open>A layout of the four nodes, standing for the result of the spring simulation.\<close>

definition chain_spring :: spring_layout where
  "chain_spring edges = [(''B'', 0, 0), (''A'', 1, 2), (''C'', 1 / 2, 1), (''D'', 1, 0)]"

text \<open>
  A graph of one node, the self-loop \<open>A \<rightarrow> A\<close>, which networkx places at the centre, the
  origin.
\<close>

definition loop_edgelist :: edgeframe where
  "loop_edgelist =
     \<lparr>ecolumns = [''event'', ''next_event'', ''edge_weight''],
      erows = [\<lparr>e_source = ''A'', e_target = ''A'', e_cells = [(''edge_weight'', Fin 1)],
                e_type = None, e_weight_norm = NaN\<rparr>]\<rparr>"

definition loop_spring :: spring_layout where
  "loop_spring edges = [(''A'', 0, 0)]"

text \<open>A node list and an edge list whose metric is zero in every row.\<close>

definition zero_session :: session where
  "zero_session =
     \<lparr>nodelist = \<lparr>ncolumns = [''number_of_events''],
                   nrows = [(chain_node 0 ''A'' None)\<lparr>n_cells := [(''number_of_events'', Fin 0)]\<rparr>]\<rparr>,
      edgelist = \<lparr>ecolumns = [''event'', ''next_event'', ''edge_weight''],
                   erows = [\<lparr>e_source = ''A'', e_target = ''A'', e_cells = [(''edge_weight'', Fin 0)],
                             e_type = None, e_weight_norm = NaN\<rparr>]\<rparr>,
      layout = None, updates = [], graph_updates = [], graph_settings = no_settings\<rparr>"

text \<open>A node list with a signed metric, as a comparison of two groups of users gives.\<close>

definition signed_rete :: rete where
  "signed_rete = (explorer [])\<lparr>get_nodelist_cols := [''change''], get_nodelist_default_col := ''change''\<rparr>"

definition signed_nodelist :: nodeframe where
  "signed_nodelist =
     \<lparr>ncolumns = [''change''],
      nrows = [(chain_node 0 ''A'' None)\<lparr>n_cells := [(''change'', Fin (- 5))]\<rparr>,
               (chain_node 1 ''B'' None)\<lparr>n_cells := [(''change'', Fin 1)]\<rparr>]\<rparr>"

text \<open>
  An edge list with the default weight and a custom metric, their maximal absolute values
  being 8 and 10.
\<close>

definition weighted_session :: session where
  "weighted_session =
     \<lparr>nodelist = chain_nodelist,
      edgelist = \<lparr>ecolumns = [''event'', ''next_event'', ''edge_weight'', ''avg_time''],
                   erows = [\<lparr>e_source = ''A'', e_target = ''B'',
                             e_cells = [(''edge_weight'', Fin 4), (''avg_time'', Fin 10)],
                             e_type = None, e_weight_norm = NaN\<rparr>,
                            \<lparr>e_source = ''B'', e_target = ''C'',
                             e_cells = [(''edge_weight'', Fin (- 8)), (''avg_time'', Fin 5)],
                             e_type = None, e_weight_norm = NaN\<rparr>]\<rparr>,
      layout = None, updates = [], graph_updates = [], graph_settings = no_settings\<rparr>"

text \<open>A layout that puts the three nodes of this edge list on one vertical line.\<close>

definition column_spring :: spring_layout where
  "column_spring edges = [(''A'', 0, 0), (''B'', 0, 1), (''C'', 0, 2)]"

text \<open>
  The edge list above with one more column, named like the default column of the node
  list and zero in every row.
\<close>

definition shadow_session :: session where
  "shadow_session =
     weighted_session
     \<lparr>edgelist := \<lparr>ecolumns = [''event'', ''next_event'', ''edge_weight'', ''number_of_events''],
                    erows = [\<lparr>e_source = ''A'', e_target = ''B'',
                              e_cells = [(''edge_weight'', Fin 4), (''number_of_events'', Fin 0)],
                              e_type = None, e_weight_norm = NaN\<rparr>,
                             \<lparr>e_source = ''B'', e_target = ''C'',
                              e_cells = [(''edge_weight'', Fin (- 8)), (''number_of_events'', Fin 0)],
                              e_type = None, e_weight_norm = NaN\<rparr>]\<rparr>\<rparr>"



section \<open>Relabeling of grouped events\<close>

lemma filter_name_unique:
  assumes "distinct (map n_name rows)" and "c \<in> set rows"
  shows "filter (\<lambda>g. n_name g = n_name c) rows = [c]"
  using assms
proof (induction rows)
  case Nil
  then show ?case by simp
next
  case (Cons a rows)
  show ?case
  proof (cases "a = c")
    case True
    with Cons.prems have "\<forall>g \<in> set rows. n_name g \<noteq> n_name c" by (auto simp: image_iff)
    then have "filter (\<lambda>g. n_name g = n_name c) rows = []" by (simp add: filter_empty_conv)
    with True show ?thesis by simp
  next
    case False
    with Cons.prems have "c \<in> set rows" by simp
    with Cons.prems have "n_name a \<noteq> n_name c" by (auto simp: image_iff)
    with Cons \<open>c \<in> set rows\<close> show ?thesis by simp
  qed
qed

lemma distinct_grouped: "distinct (map n_name (nrows nl)) \<Longrightarrow> distinct (map n_name (grouped_rows nl))"
  by (simp add: grouped_rows_def distinct_map_filter)

lemma replace_event_cases:
  "event (replace_grouped_events grouped x) = event x \<and> (\<forall>g \<in> set grouped. Some (n_name g) \<noteq> event x)
   \<or> (\<exists>g \<in> set grouped. Some (n_name g) = event x \<and> event (replace_grouped_events grouped x) = n_parent g)"
proof (cases "filter (\<lambda>g. Some (n_name g) = event x) grouped")
  case Nil
  then show ?thesis by (auto simp: replace_grouped_events_def filter_empty_conv)
next
  case (Cons m ms)
  then have "m \<in> set (filter (\<lambda>g. Some (n_name g) = event x) grouped)" by simp
  then have "m \<in> set grouped" "Some (n_name m) = event x" by auto
  with Cons show ?thesis by (auto simp: replace_grouped_events_def)
qed

lemma updated_no_event:
  assumes "a \<in> set (nrows nl)" and "n_active a" and "n_parent a = Some B"
    and "\<forall>g \<in> set (nrows nl). n_active g \<longrightarrow> n_parent g \<noteq> Some (n_name a)"
  shows "Some (n_name a) \<notin> event ` set (updated_clickstream r nl)"
proof
  assume "Some (n_name a) \<in> event ` set (updated_clickstream r nl)"
  then obtain x where x: "x \<in> set (filtered_clickstream r nl)"
    and ev: "event (replace_grouped_events (grouped_rows nl) x) = Some (n_name a)"
    by (auto simp: updated_clickstream_def)
  have ag: "a \<in> set (grouped_rows nl)" using assms by (simp add: grouped_rows_def)
  from replace_event_cases [of "grouped_rows nl" x] show False
  proof
    assume "event (replace_grouped_events (grouped_rows nl) x) = event x \<and> (\<forall>g \<in> set (grouped_rows nl). Some (n_name g) \<noteq> event x)"
    with ev ag show False by auto
  next
    assume "\<exists>g \<in> set (grouped_rows nl). Some (n_name g) = event x \<and> event (replace_grouped_events (grouped_rows nl) x) = n_parent g"
    then obtain g where "g \<in> set (grouped_rows nl)" "n_parent g = Some (n_name a)" using ev by auto
    then show False using assms(4) by (auto simp: grouped_rows_def)
  qed
qed

section \<open>Merging the recomputed metrics\<close>

lemma copy_cols_fields:
  "copy_cols rc m cols row = Inr row' \<Longrightarrow>
     n_name row' = n_name row \<and> n_active row' = n_active row \<and> n_parent row' = n_parent row
     \<and> n_index row' = n_index row \<and> n_alias row' = n_alias row \<and> n_changed_name row' = n_changed_name row
     \<and> set cols \<subseteq> set rc"
  by (induction cols arbitrary: row) (auto split: if_splits)

lemma copy_cols_keeps:
  "copy_cols rc m cols row = Inr row' \<Longrightarrow> map_of (n_cells row) c = Some (cell (n_cells m) c)
     \<Longrightarrow> map_of (n_cells row') c = Some (cell (n_cells m) c)"
  by (induction cols arbitrary: row) (auto split: if_splits simp: update_conv')

lemma copy_cols_sets:
  "copy_cols rc m cols row = Inr row' \<Longrightarrow> c \<in> set cols
     \<Longrightarrow> map_of (n_cells row') c = Some (cell (n_cells m) c)"
proof (induction cols arbitrary: row)
  case Nil
  then show ?case by simp
next
  case (Cons a cols)
  let ?row1 = "row\<lparr>n_cells := AList.update a (cell (n_cells m) a) (n_cells row)\<rparr>"
  from Cons.prems have step: "copy_cols rc m cols ?row1 = Inr row'" by (simp split: if_splits)
  show ?case
  proof (cases "c = a")
    case True
    have "map_of (n_cells ?row1) c = Some (cell (n_cells m) c)" using True by (simp add: update_conv')
    then show ?thesis using copy_cols_keeps [OF step] by blast
  next
    case False
    then show ?thesis using Cons.IH [OF step] Cons.prems by simp
  qed
qed

lemma copy_cols_fixed:
  "set cols \<subseteq> set rc \<Longrightarrow> \<forall>c \<in> set cols. map_of (n_cells row) c = Some (cell (n_cells m) c)
     \<Longrightarrow> copy_cols rc m cols row = Inr row"
  by (induction cols) (auto simp: update_triv)

lemma copy_cols_idem:
  assumes "copy_cols rc m cols row = Inr row'"
  shows "copy_cols rc m cols row' = Inr row'"
  using copy_cols_fixed [of cols rc row' m] copy_cols_fields [OF assms] copy_cols_sets [OF assms]
  by blast

lemma update_node_fields:
  "update_node_after_recalc r rec row = Inr row' \<Longrightarrow>
     n_name row' = n_name row \<and> n_active row' = n_active row \<and> n_parent row' = n_parent row"
  by (auto simp: update_node_after_recalc_def split: list.splits dest: copy_cols_fields)

lemma update_node_idem:
  assumes "update_node_after_recalc r rec row = Inr row'"
  shows "update_node_after_recalc r rec row' = Inr row'"
proof -
  have n: "n_name row' = n_name row" using update_node_fields [OF assms] by simp
  show ?thesis
  proof (cases "filter (\<lambda>m. n_name m = n_name row) (nrows rec)")
    case Nil
    with assms n show ?thesis by (simp add: update_node_after_recalc_def)
  next
    case (Cons m ms)
    with assms have "copy_cols (ncolumns rec) m (get_nodelist_cols r) row = Inr row'"
      by (simp add: update_node_after_recalc_def)
    then have "copy_cols (ncolumns rec) m (get_nodelist_cols r) row' = Inr row'" by (rule copy_cols_idem)
    with Cons n show ?thesis by (simp add: update_node_after_recalc_def)
  qed
qed

lemma map_err_Inr_iff:
  "map_err f xs = Inr ys \<longleftrightarrow> list_all2 (\<lambda>x y. f x = Inr y) xs ys"
proof (induction xs arbitrary: ys)
  case Nil
  then show ?case by auto
next
  case (Cons x xs)
  show ?case by (auto simp: list_all2_Cons1 Cons.IH [symmetric] split: sum.splits)
qed

lemma update_rows_fields:
  assumes "map_err (update_node_after_recalc r rec) rows = Inr rows'"
  shows "map n_name rows' = map n_name rows"
    and "map n_name (filter n_active rows') = map n_name (filter n_active rows)"
    and "map (\<lambda>g. (n_name g, n_parent g)) (filter (\<lambda>g. n_parent g \<noteq> None \<and> n_active g) rows')
         = map (\<lambda>g. (n_name g, n_parent g)) (filter (\<lambda>g. n_parent g \<noteq> None \<and> n_active g) rows)"
proof -
  from assms have "list_all2 (\<lambda>x y. update_node_after_recalc r rec x = Inr y) rows rows'"
    by (simp add: map_err_Inr_iff)
  then have a: "list_all2 (\<lambda>x y. n_name y = n_name x \<and> n_active y = n_active x \<and> n_parent y = n_parent x) rows rows'"
    by (rule list_all2_mono) (auto dest: update_node_fields)
  from a show "map n_name rows' = map n_name rows"
    by (induction rule: list_all2_induct) auto
  from a show "map n_name (filter n_active rows') = map n_name (filter n_active rows)"
    by (induction rule: list_all2_induct) auto
  from a show "map (\<lambda>g. (n_name g, n_parent g)) (filter (\<lambda>g. n_parent g \<noteq> None \<and> n_active g) rows')
         = map (\<lambda>g. (n_name g, n_parent g)) (filter (\<lambda>g. n_parent g \<noteq> None \<and> n_active g) rows)"
    by (induction rule: list_all2_induct) auto
qed

lemma update_rows_idem:
  assumes "map_err (update_node_after_recalc r rec) rows = Inr rows'"
  shows "map_err (update_node_after_recalc r rec) rows' = Inr rows'"
proof -
  from assms have "list_all2 (\<lambda>x y. update_node_after_recalc r rec x = Inr y) rows rows'"
    by (simp add: map_err_Inr_iff)
  then have "list_all2 (\<lambda>x y. update_node_after_recalc r rec x = Inr y) rows' rows'"
    by (induction rule: list_all2_induct) (auto dest: update_node_idem)
  then show ?thesis by (simp add: map_err_Inr_iff)
qed

lemma replace_grouped_cong:
  assumes "map (\<lambda>g. (n_name g, n_parent g)) gs' = map (\<lambda>g. (n_name g, n_parent g)) gs"
  shows "replace_grouped_events gs' x = replace_grouped_events gs x"
proof -
  have "map (\<lambda>g. (n_name g, n_parent g)) (filter (\<lambda>g. Some (n_name g) = event x) gs')
      = map (\<lambda>g. (n_name g, n_parent g)) (filter (\<lambda>g. Some (n_name g) = event x) gs)"
    using assms
  proof (induction gs' arbitrary: gs)
    case Nil
    then show ?case by simp
  next
    case (Cons a gs')
    then show ?case by (cases gs) auto
  qed
  then show ?thesis
    by (cases "filter (\<lambda>g. Some (n_name g) = event x) gs'"; cases "filter (\<lambda>g. Some (n_name g) = event x) gs")
       (auto simp: replace_grouped_events_def)
qed

lemma updated_clickstream_cong:
  assumes "map n_name (active_rows nl') = map n_name (active_rows nl)"
    and "map (\<lambda>g. (n_name g, n_parent g)) (grouped_rows nl') = map (\<lambda>g. (n_name g, n_parent g)) (grouped_rows nl)"
  shows "updated_clickstream r nl' = updated_clickstream r nl"
  using assms replace_grouped_cong [OF assms(2)]
  by (simp add: updated_clickstream_def filtered_clickstream_def cong: map_cong)

section \<open>Recomputing twice\<close>

lemma recalculate_Inr:
  assumes "recalculate r s = (Inr u, s')"
  shows "\<exists>rows. map_err (update_node_after_recalc r (create_nodelist r (updated_clickstream r (nodelist s))))
                   (nrows (nodelist s)) = Inr rows
           \<and> s' = s\<lparr>nodelist := \<lparr>ncolumns = recalculated_columns r (create_nodelist r (updated_clickstream r (nodelist s))) (nodelist s),
                                  nrows = rows\<rparr>,
                    edgelist := create_edgelist r (updated_clickstream r (nodelist s))\<rparr>"
  using assms by (auto simp: recalculate_def Let_def split: sum.splits)

lemma recalculated_columns_idem:
  assumes "map n_name rows' = map n_name (nrows nl)"
  shows "recalculated_columns r rec \<lparr>ncolumns = recalculated_columns r rec nl, nrows = rows'\<rparr>
         = recalculated_columns r rec nl"
proof -
  have "(\<exists>row \<in> set rows'. \<exists>m \<in> set (nrows rec). n_name m = n_name row)
        = (\<exists>n \<in> set (map n_name rows'). \<exists>m \<in> set (nrows rec). n_name m = n)" by auto
  also have "\<dots> = (\<exists>n \<in> set (map n_name (nrows nl)). \<exists>m \<in> set (nrows rec). n_name m = n)"
    using assms by simp
  also have "\<dots> = (\<exists>row \<in> set (nrows nl). \<exists>m \<in> set (nrows rec). n_name m = n_name row)" by auto
  finally have m: "(\<exists>row \<in> set rows'. \<exists>m \<in> set (nrows rec). n_name m = n_name row)
        = (\<exists>row \<in> set (nrows nl). \<exists>m \<in> set (nrows rec). n_name m = n_name row)" .
  have "filter (\<lambda>c. c \<notin> set (ncolumns nl @ filter (\<lambda>c. c \<notin> set (ncolumns nl)) (remdups (get_nodelist_cols r))))
          (remdups (get_nodelist_cols r)) = []"
    by (auto simp: filter_empty_conv)
  then show ?thesis using m by (simp add: recalculated_columns_def)
qed

lemma updated_clickstream_after:
  assumes "map_err (update_node_after_recalc r rec) (nrows nl) = Inr rows'"
  shows "updated_clickstream r \<lparr>ncolumns = cs, nrows = rows'\<rparr> = updated_clickstream r nl"
proof (rule updated_clickstream_cong)
  show "map n_name (active_rows \<lparr>ncolumns = cs, nrows = rows'\<rparr>) = map n_name (active_rows nl)"
    unfolding active_rows_def using update_rows_fields(2) [OF assms] by simp
  show "map (\<lambda>g. (n_name g, n_parent g)) (grouped_rows \<lparr>ncolumns = cs, nrows = rows'\<rparr>)
        = map (\<lambda>g. (n_name g, n_parent g)) (grouped_rows nl)"
    unfolding grouped_rows_def using update_rows_fields(3) [OF assms] by simp
qed

lemma recalculate_again:
  assumes "recalculate r s = (Inr u, s1)" and "nodelist s2 = nodelist s1"
  shows "recalculate r s2 = (Inr (), s2\<lparr>nodelist := nodelist s1, edgelist := edgelist s1\<rparr>)"
proof -
  let ?upd = "updated_clickstream r (nodelist s)"
  let ?rec = "create_nodelist r ?upd"
  from recalculate_Inr [OF assms(1)] obtain rows where
    rows: "map_err (update_node_after_recalc r ?rec) (nrows (nodelist s)) = Inr rows"
    and s1: "s1 = s\<lparr>nodelist := \<lparr>ncolumns = recalculated_columns r ?rec (nodelist s), nrows = rows\<rparr>,
                     edgelist := create_edgelist r ?upd\<rparr>"
    by blast
  let ?nl1 = "\<lparr>ncolumns = recalculated_columns r ?rec (nodelist s), nrows = rows\<rparr>"
  have n2: "nodelist s2 = ?nl1" using assms(2) s1 by simp
  have upd: "updated_clickstream r ?nl1 = ?upd" using rows by (rule updated_clickstream_after)
  have again: "map_err (update_node_after_recalc r ?rec) rows = Inr rows" using rows by (rule update_rows_idem)
  have cols: "recalculated_columns r ?rec ?nl1 = recalculated_columns r ?rec (nodelist s)"
    by (rule recalculated_columns_idem) (rule update_rows_fields(1) [OF rows])
  have e1: "edgelist s1 = create_edgelist r ?upd" and n1: "nodelist s1 = ?nl1" using s1 by simp_all
  show ?thesis
    unfolding recalculate_def Let_def n2 upd using again cols e1 n1 by simp
qed

lemma recalculate_frame:
  assumes "recalculate r s = (Inr u, s1)"
  shows "s1 = s\<lparr>nodelist := nodelist s1, edgelist := edgelist s1\<rparr>"
  using recalculate_Inr [OF assms] by auto

text \<open>
  Claim C3 (idempotence). A recomputation that returns leaves a session on which the
  recomputation returns again and changes nothing: node list, edge list and metric cells
  are the same. The same holds for the \<open>recalculate\<close> handler called twice with no edit: the
  second call returns the payload of the first and the session of the first.
\<close>

theorem recalculate_idempotent:
  "(recalculate r s = (Inr u, s1) \<longrightarrow> recalculate r s1 = (Inr (), s1))
   \<and> (on_recalc_request r s [] = (Inr p, s2) \<longrightarrow> on_recalc_request r s2 [] = (Inr p, s2))"
proof (intro conjI impI)
  assume "recalculate r s = (Inr u, s1)"
  from recalculate_again [OF this refl] show "recalculate r s1 = (Inr (), s1)" by simp
next
  assume req: "on_recalc_request r s [] = (Inr p, s2)"
  let ?s0 = "s\<lparr>updates := []\<rparr>"
  have start: "on_nodelist_updated ?s0 [] = ?s0" by (simp add: on_nodelist_updated_def)
  obtain res sm where rc: "recalculate r ?s0 = (res, sm)" by (cases "recalculate r ?s0")
  from req rc start obtain u where res: "res = Inr u"
    by (cases res) (auto simp: on_recalc_request_def)
  let ?s3 = "sm\<lparr>edgelist := set_type (edgelist sm) (\<lambda>_. Some ''suit'')\<rparr>"
  from req rc start res obtain ns nodes_set where pn: "prepare_nodes r (nodelist ?s3) None None = Inr (ns, nodes_set)"
    by (cases "prepare_nodes r (nodelist ?s3) None None") (auto simp: on_recalc_request_def Let_def)
  obtain eres el where pe: "prepare_edges r (edgelist ?s3) nodes_set = (eres, el)"
    by (cases "prepare_edges r (edgelist ?s3) nodes_set")
  from req rc start res pn pe obtain ls where ls: "eres = Inr ls" and p: "p = \<lparr>nodes = ns, links = ls\<rparr>"
    and s2: "s2 = ?s3\<lparr>edgelist := el\<rparr>"
    by (cases eres) (auto simp: on_recalc_request_def Let_def)
  have fr: "sm = ?s0\<lparr>nodelist := nodelist sm, edgelist := edgelist sm\<rparr>"
    using recalculate_frame [of r ?s0 u sm] rc res by simp
  have s2m: "s2 = sm\<lparr>edgelist := el\<rparr>" using s2 by simp
  have u2: "updates sm = []" by (subst fr) simp
  have upd1: "s2\<lparr>updates := []\<rparr> = s2" using s2m u2 by simp
  have start1: "on_nodelist_updated s2 [] = s2" using upd1 by (simp add: on_nodelist_updated_def)
  have "recalculate r s2 = (Inr (), s2\<lparr>nodelist := nodelist sm, edgelist := edgelist sm\<rparr>)"
    using recalculate_again [of r ?s0 u sm s2] rc res s2m by simp
  moreover have "s2\<lparr>nodelist := nodelist sm, edgelist := edgelist sm\<rparr> = sm" using s2m by simp
  ultimately have rc1: "recalculate r s2 = (Inr (), sm)" by simp
  show "on_recalc_request r s2 [] = (Inr p, s2)"
    unfolding on_recalc_request_def upd1 start1 rc1 using pn pe ls p s2 by (simp add: Let_def)
qed

section \<open>Grouping\<close>

lemma chain_updated:
  "updated_clickstream (explorer chain_log) chain_nodelist =
     [\<lparr>event = Some ''A'', user_id = ''u'', event_timestamp = 1\<rparr>,
      \<lparr>event = Some ''A'', user_id = ''u'', event_timestamp = 2\<rparr>,
      \<lparr>event = Some ''B'', user_id = ''u'', event_timestamp = 3\<rparr>,
      \<lparr>event = Some ''G'', user_id = ''u'', event_timestamp = 4\<rparr>]"
  by (simp add: updated_clickstream_def filtered_clickstream_def grouped_rows_def active_rows_def
      replace_grouped_events_def explorer_def chain_log_def chain_nodelist_def chain_node_def)


lemma user_events_subset: "e \<in> set (user_events lg u) \<Longrightarrow> Some e \<in> event ` set lg"
  by (auto simp: user_events_def image_iff split: option.splits)

lemma transitions_subset:
  assumes "t \<in> set (transitions lg)"
  shows "Some (fst t) \<in> event ` set lg \<and> Some (snd t) \<in> event ` set lg"
proof -
  from assms obtain u where "t \<in> set (zip (user_events lg u) (tl (user_events lg u)))"
    by (auto simp: transitions_def)
  then have "fst t \<in> set (user_events lg u)" and "snd t \<in> set (tl (user_events lg u))"
    by (auto dest: set_zip_leftD set_zip_rightD simp: prod_eq_iff intro: set_zip_leftD [of "fst t" "snd t"] set_zip_rightD [of "fst t" "snd t"])
  moreover have "set (tl (user_events lg u)) \<subseteq> set (user_events lg u)"
    by (cases "user_events lg u") auto
  ultimately show ?thesis using user_events_subset by blast
qed

lemma explorer_transitions:
  "\<forall>lg. (\<lambda>e. (e_source e, e_target e)) ` set (erows (create_edgelist (explorer l) lg)) = set (transitions lg)"
  by (simp add: explorer_def explorer_edgelist_def image_image)

lemma replace_grouped_event:
  "event (replace_grouped_events G x) = (case event x of None \<Rightarrow> None | Some e \<Rightarrow> group_name G e)"
  by (cases "event x") (simp_all add: group_name_def replace_grouped_events_def split: list.splits)

lemma replace_grouped_user: "user_id (replace_grouped_events G x) = user_id x"
  by (simp add: replace_grouped_events_def split: list.splits)

lemma group_name_grouped: "\<exists>p. group_name (grouped_rows nl) e = Some p"
proof (cases "filter (\<lambda>g. n_name g = e) (grouped_rows nl)")
  case Nil
  then show ?thesis by (simp add: group_name_def replace_grouped_events_def)
next
  case (Cons m ms)
  then have "m \<in> set (filter (\<lambda>g. n_name g = e) (grouped_rows nl))" by simp
  then have "n_parent m \<noteq> None" by (simp add: grouped_rows_def)
  with Cons show ?thesis by (auto simp: group_name_def replace_grouped_events_def)
qed

lemma group_name_unique:
  assumes "distinct (map n_name (nrows nl))" and "a \<in> set (nrows nl)" and "n_active a" and "n_parent a = Some B"
  shows "group_name (grouped_rows nl) (n_name a) = Some B"
proof -
  have "a \<in> set (grouped_rows nl)" using assms by (simp add: grouped_rows_def)
  then have "filter (\<lambda>g. n_name g = n_name a) (grouped_rows nl) = [a]"
    using filter_name_unique [OF distinct_grouped [OF assms(1)]] by blast
  then show ?thesis using assms(4) by (simp add: group_name_def replace_grouped_events_def)
qed

lemma user_events_relabel:
  assumes "\<forall>e. \<exists>p. group_name G e = Some p"
  shows "user_events (map (replace_grouped_events G) xs) u
         = map (\<lambda>e. case group_name G e of Some p \<Rightarrow> p | None \<Rightarrow> e) (user_events xs u)"
proof (induction xs)
  case Nil
  then show ?case by (simp add: user_events_def)
next
  case (Cons x xs)
  then have ih: "user_events (map (replace_grouped_events G) xs) u
         = map (\<lambda>e. case group_name G e of Some p \<Rightarrow> p | None \<Rightarrow> e) (user_events xs u)" .
  show ?case
  proof (cases "event x")
    case None
    with ih show ?thesis by (simp add: user_events_def replace_grouped_user replace_grouped_event)
  next
    case (Some e)
    from assms obtain p where "group_name G e = Some p" by blast
    with Some ih show ?thesis by (simp add: user_events_def replace_grouped_user replace_grouped_event)
  qed
qed

lemma transitions_relabel:
  assumes "\<forall>e. \<exists>p. group_name G e = Some p"
  shows "transitions (map (replace_grouped_events G) xs)
         = map (map_prod (\<lambda>e. case group_name G e of Some p \<Rightarrow> p | None \<Rightarrow> e)
                         (\<lambda>e. case group_name G e of Some p \<Rightarrow> p | None \<Rightarrow> e)) (transitions xs)"
proof -
  let ?f = "\<lambda>e. case group_name G e of Some p \<Rightarrow> p | None \<Rightarrow> e"
  have u: "map user_id (map (replace_grouped_events G) xs) = map user_id xs"
    by (simp add: replace_grouped_user)
  have z: "zip (map ?f l) (tl (map ?f l)) = map (map_prod ?f ?f) (zip l (tl l))" for l :: "string list"
    by (simp add: map_tl [symmetric] zip_map_map map_prod_def)
  show ?thesis
    unfolding transitions_def u user_events_relabel [OF assms]
    by (simp add: map_concat comp_def z)
qed

lemma chain_recalculate:
  "fst (recalculate (explorer chain_log) chain_session) = Inr ()"
  unfolding recalculate_def Let_def
  by (simp add: chain_updated chain_session_def)
     (simp add: explorer_def explorer_nodelist_def log_events_def chain_nodelist_def chain_node_def
        update_node_after_recalc_def cell_def)

text \<open>
  Claim C7 (single-level substitution). In a node list with unique names let \<open>c\<close> be an active
  node with parent \<open>B\<close>. Every row of the filtered log whose event is the name of \<open>c\<close> is
  relabeled to \<open>B\<close> by the one pass that \<open>_recalculate\<close> makes over the log: the row of the
  updated log at the same position is the filtered row with the event \<open>B\<close>. Whatever \<open>B\<close> is,
  a node grouped under some \<open>A\<close> or not, the event of the row is \<open>B\<close> and no other name \<open>A\<close>.
\<close>

theorem single_level_substitution:
  assumes "distinct (map n_name (nrows nl))"
    and "c \<in> set (nrows nl)" and "n_active c" and "n_parent c = Some B"
    and "i < length (filtered_clickstream r nl)"
    and "event (filtered_clickstream r nl ! i) = Some (n_name c)"
  shows "updated_clickstream r nl ! i = (filtered_clickstream r nl ! i)\<lparr>event := Some B\<rparr>
         \<and> (A \<noteq> B \<longrightarrow> event (updated_clickstream r nl ! i) \<noteq> Some A)"
proof -
  let ?x = "filtered_clickstream r nl ! i"
  have "c \<in> set (grouped_rows nl)" using assms by (simp add: grouped_rows_def)
  then have "filter (\<lambda>g. n_name g = n_name c) (grouped_rows nl) = [c]"
    using filter_name_unique [OF distinct_grouped [OF assms(1)]] by blast
  then have "replace_grouped_events (grouped_rows nl) ?x = ?x\<lparr>event := Some B\<rparr>"
    using assms by (simp add: replace_grouped_events_def)
  then have "updated_clickstream r nl ! i = ?x\<lparr>event := Some B\<rparr>"
    using assms(5) by (simp add: updated_clickstream_def)
  then show ?thesis by simp
qed

text \<open>
  In the chain \<open>C \<rightarrow> B \<rightarrow> A\<close> the row of \<open>C\<close> becomes a row of \<open>B\<close>, not of \<open>A\<close>, and the row of \<open>B\<close>
  becomes a row of \<open>A\<close>.
\<close>

theorem single_level_substitution_witness:
  "filtered_clickstream (explorer chain_log) chain_nodelist ! 2 = \<lparr>event = Some ''C'', user_id = ''u'', event_timestamp = 3\<rparr>
   \<and> updated_clickstream (explorer chain_log) chain_nodelist ! 2 = \<lparr>event = Some ''B'', user_id = ''u'', event_timestamp = 3\<rparr>
   \<and> event (updated_clickstream (explorer chain_log) chain_nodelist ! 2) \<noteq> Some ''A''
   \<and> filtered_clickstream (explorer chain_log) chain_nodelist ! 0 = \<lparr>event = Some ''B'', user_id = ''u'', event_timestamp = 1\<rparr>
   \<and> updated_clickstream (explorer chain_log) chain_nodelist ! 0 = \<lparr>event = Some ''A'', user_id = ''u'', event_timestamp = 1\<rparr>"
proof -
  have f: "filtered_clickstream (explorer chain_log) chain_nodelist = chain_log"
    by (simp add: filtered_clickstream_def active_rows_def explorer_def chain_log_def chain_nodelist_def chain_node_def)
  have "updated_clickstream (explorer chain_log) chain_nodelist ! 2
          = (filtered_clickstream (explorer chain_log) chain_nodelist ! 2)\<lparr>event := Some ''B''\<rparr>
        \<and> (''A'' \<noteq> ''B'' \<longrightarrow> event (updated_clickstream (explorer chain_log) chain_nodelist ! 2) \<noteq> Some ''A'')"
    by (rule single_level_substitution [where c = "chain_node 2 ''C'' (Some ''B'')"])
       (simp_all add: f, simp_all add: chain_nodelist_def chain_node_def chain_log_def)
  moreover
  have "updated_clickstream (explorer chain_log) chain_nodelist ! 0
          = (filtered_clickstream (explorer chain_log) chain_nodelist ! 0)\<lparr>event := Some ''A''\<rparr>
        \<and> (''G'' \<noteq> ''A'' \<longrightarrow> event (updated_clickstream (explorer chain_log) chain_nodelist ! 0) \<noteq> Some ''G'')"
    by (rule single_level_substitution [where c = "chain_node 1 ''B'' (Some ''A'')"])
       (simp_all add: f, simp_all add: chain_nodelist_def chain_node_def chain_log_def)
  ultimately show ?thesis by (simp add: f) (simp add: chain_log_def)
qed

text \<open>
  Claim C1 (grouping correctness), amended. Let the explorer build its edges from the
  transitions of the log it is given (the pairs of consecutive events of one user), let the
  names of the node list be unique, and let \<open>a\<close> be an active node with parent \<open>B\<close>. After a
  recomputation that returns, every transition of the filtered log from \<open>a\<close> to an event \<open>e\<close>
  is an edge of the new edge list from \<open>B\<close> to the name the pass gives \<open>e\<close>, and every
  transition from \<open>e\<close> to \<open>a\<close> is an edge from that name to \<open>B\<close>. If moreover \<open>a\<close> is not the
  parent of an active node, no edge of the new edge list has the name of \<open>a\<close> as source or
  target.
\<close>

theorem grouping_correctness:
  assumes "\<forall>lg. (\<lambda>e. (e_source e, e_target e)) ` set (erows (create_edgelist r lg)) = set (transitions lg)"
    and "distinct (map n_name (nrows (nodelist s)))"
    and "a \<in> set (nrows (nodelist s))" and "n_active a" and "n_parent a = Some B"
    and "recalculate r s = (Inr u, s')"
  shows "(\<forall>e. (n_name a, e) \<in> set (transitions (filtered_clickstream r (nodelist s))) \<longrightarrow>
            (\<exists>edge \<in> set (erows (edgelist s')).
                e_source edge = B \<and> Some (e_target edge) = group_name (grouped_rows (nodelist s)) e))
       \<and> (\<forall>e. (e, n_name a) \<in> set (transitions (filtered_clickstream r (nodelist s))) \<longrightarrow>
            (\<exists>edge \<in> set (erows (edgelist s')).
                Some (e_source edge) = group_name (grouped_rows (nodelist s)) e \<and> e_target edge = B))
       \<and> ((\<forall>g \<in> set (nrows (nodelist s)). n_active g \<longrightarrow> n_parent g \<noteq> Some (n_name a)) \<longrightarrow>
            (\<forall>edge \<in> set (erows (edgelist s')). e_source edge \<noteq> n_name a \<and> e_target edge \<noteq> n_name a))"
proof -
  let ?G = "grouped_rows (nodelist s)"
  let ?F = "filtered_clickstream r (nodelist s)"
  let ?U = "updated_clickstream r (nodelist s)"
  let ?f = "\<lambda>e. case group_name ?G e of Some p \<Rightarrow> p | None \<Rightarrow> e"
  have el: "edgelist s' = create_edgelist r ?U"
    using recalculate_Inr [OF assms(6)] by auto
  have pairs: "(\<lambda>e. (e_source e, e_target e)) ` set (erows (edgelist s')) = set (transitions ?U)"
    unfolding el using assms(1) by blast
  have all: "\<forall>e. \<exists>p. group_name ?G e = Some p" using group_name_grouped by blast
  have tu: "transitions ?U = map (map_prod ?f ?f) (transitions ?F)"
    unfolding updated_clickstream_def using all by (rule transitions_relabel)
  have fa: "?f (n_name a) = B" using group_name_unique [OF assms(2-5)] by simp
  have fe: "Some (?f e) = group_name ?G e" for e
    using group_name_grouped [of "nodelist s" e] by auto
  have moved: "\<exists>edge \<in> set (erows (edgelist s')). e_source edge = ?f x \<and> e_target edge = ?f y"
    if "(x, y) \<in> set (transitions ?F)" for x y
  proof -
    from that have "(?f x, ?f y) \<in> set (transitions ?U)" unfolding tu by force
    then have "(?f x, ?f y) \<in> (\<lambda>e. (e_source e, e_target e)) ` set (erows (edgelist s'))"
      unfolding pairs .
    then show ?thesis by auto
  qed
  have one: "\<forall>e. (n_name a, e) \<in> set (transitions ?F) \<longrightarrow>
            (\<exists>edge \<in> set (erows (edgelist s')). e_source edge = B \<and> Some (e_target edge) = group_name ?G e)"
  proof (intro allI impI)
    fix e assume "(n_name a, e) \<in> set (transitions ?F)"
    from moved [OF this] obtain edge where "edge \<in> set (erows (edgelist s'))"
      "e_source edge = ?f (n_name a)" "e_target edge = ?f e" by blast
    then show "\<exists>edge \<in> set (erows (edgelist s')). e_source edge = B \<and> Some (e_target edge) = group_name ?G e"
      using fa fe [of e] by (intro bexI [of _ edge]) simp_all
  qed
  have two: "\<forall>e. (e, n_name a) \<in> set (transitions ?F) \<longrightarrow>
            (\<exists>edge \<in> set (erows (edgelist s')). Some (e_source edge) = group_name ?G e \<and> e_target edge = B)"
  proof (intro allI impI)
    fix e assume "(e, n_name a) \<in> set (transitions ?F)"
    from moved [OF this] obtain edge where "edge \<in> set (erows (edgelist s'))"
      "e_source edge = ?f e" "e_target edge = ?f (n_name a)" by blast
    then show "\<exists>edge \<in> set (erows (edgelist s')). Some (e_source edge) = group_name ?G e \<and> e_target edge = B"
      using fa fe [of e] by (intro bexI [of _ edge]) simp_all
  qed
  have three: "(\<forall>g \<in> set (nrows (nodelist s)). n_active g \<longrightarrow> n_parent g \<noteq> Some (n_name a)) \<longrightarrow>
            (\<forall>edge \<in> set (erows (edgelist s')). e_source edge \<noteq> n_name a \<and> e_target edge \<noteq> n_name a)"
  proof (intro impI ballI)
    fix edge assume np: "\<forall>g \<in> set (nrows (nodelist s)). n_active g \<longrightarrow> n_parent g \<noteq> Some (n_name a)"
      and e: "edge \<in> set (erows (edgelist s'))"
    have no: "Some (n_name a) \<notin> event ` set ?U"
      using assms(3-5) np by (rule updated_no_event)
    from e have "(e_source edge, e_target edge) \<in> set (transitions ?U)" using pairs by force
    from transitions_subset [OF this]
    have "Some (e_source edge) \<in> event ` set ?U" and "Some (e_target edge) \<in> event ` set ?U" by simp_all
    with no show "e_source edge \<noteq> n_name a \<and> e_target edge \<noteq> n_name a" by auto
  qed
  from one two three show ?thesis by blast
qed

text \<open>
  In the chain the transitions \<open>C \<rightarrow> D\<close> and \<open>A \<rightarrow> C\<close> of the log are the edges \<open>B \<rightarrow> G\<close> and \<open>A \<rightarrow> B\<close>
  after the recomputation, and \<open>C\<close>, the parent of no node, is no endpoint.
\<close>

theorem grouping_correctness_witness:
  "fst (recalculate (explorer chain_log) chain_session) = Inr ()
   \<and> (''C'', ''D'') \<in> set (transitions (filtered_clickstream (explorer chain_log) (nodelist chain_session)))
   \<and> (''A'', ''C'') \<in> set (transitions (filtered_clickstream (explorer chain_log) (nodelist chain_session)))
   \<and> (''B'', ''G'') \<in> (\<lambda>e. (e_source e, e_target e)) ` set (erows (edgelist (snd (recalculate (explorer chain_log) chain_session))))
   \<and> (''A'', ''B'') \<in> (\<lambda>e. (e_source e, e_target e)) ` set (erows (edgelist (snd (recalculate (explorer chain_log) chain_session))))
   \<and> ''C'' \<notin> e_source ` set (erows (edgelist (snd (recalculate (explorer chain_log) chain_session))))
   \<and> ''C'' \<notin> e_target ` set (erows (edgelist (snd (recalculate (explorer chain_log) chain_session))))"
proof -
  let ?s' = "snd (recalculate (explorer chain_log) chain_session)"
  let ?c = "chain_node 2 ''C'' (Some ''B'')"
  have f: "filtered_clickstream (explorer chain_log) chain_nodelist = chain_log"
    by (simp add: filtered_clickstream_def active_rows_def explorer_def chain_log_def chain_nodelist_def chain_node_def)
  have n: "nodelist chain_session = chain_nodelist" by (simp add: chain_session_def)
  have t: "transitions chain_log = [(''B'', ''A''), (''A'', ''C''), (''C'', ''D'')]"
    by (simp add: transitions_def user_events_def chain_log_def)
  have rc: "recalculate (explorer chain_log) chain_session = (Inr (), ?s')"
    using chain_recalculate by (simp add: prod_eq_iff)
  have d: "distinct (map n_name (nrows (nodelist chain_session)))"
    by (simp add: n chain_nodelist_def chain_node_def)
  have a: "?c \<in> set (nrows (nodelist chain_session))"
    by (simp add: n chain_nodelist_def)
  have g: "\<forall>g \<in> set (nrows (nodelist chain_session)). n_active g \<longrightarrow> n_parent g \<noteq> Some (n_name ?c)"
    by (simp add: n chain_nodelist_def chain_node_def)
  have act: "n_active ?c" and par: "n_parent ?c = Some ''B''" and nm: "n_name ?c = ''C''"
    by (simp_all add: chain_node_def)
  have gd: "group_name (grouped_rows (nodelist chain_session)) ''D'' = Some ''G''"
    and ga: "group_name (grouped_rows (nodelist chain_session)) ''A'' = Some ''A''"
    by (simp_all add: n group_name_def replace_grouped_events_def grouped_rows_def chain_nodelist_def chain_node_def)
  note inst = grouping_correctness [OF explorer_transitions d a act par rc, unfolded nm n f t]
  have t1: "(''C'', ''D'') \<in> set [(''B'', ''A''), (''A'', ''C''), (''C'', ''D'')]"
    and t2: "(''A'', ''C'') \<in> set [(''B'', ''A''), (''A'', ''C''), (''C'', ''D'')]" by simp_all
  from inst [THEN conjunct1, THEN spec, THEN mp, OF t1]
  have e1: "(''B'', ''G'') \<in> (\<lambda>e. (e_source e, e_target e)) ` set (erows (edgelist ?s'))"
    unfolding gd [unfolded n] by (force simp: image_iff)
  from inst [THEN conjunct2, THEN conjunct1, THEN spec, THEN mp, OF t2]
  have e2: "(''A'', ''B'') \<in> (\<lambda>e. (e_source e, e_target e)) ` set (erows (edgelist ?s'))"
    unfolding ga [unfolded n] by (force simp: image_iff)
  from inst [THEN conjunct2, THEN conjunct2, THEN mp, OF g [unfolded nm n]]
  have e3: "''C'' \<notin> e_source ` set (erows (edgelist ?s'))" and e4: "''C'' \<notin> e_target ` set (erows (edgelist ?s'))"
    by auto
  show ?thesis
    unfolding n f t by (intro conjI) (rule chain_recalculate t1 t2 e1 e2 e3 e4)+
qed

text \<open>
  Claim C1 as stated fails on the chain: \<open>B\<close> is active with parent \<open>A\<close>, and still \<open>B\<close> is an
  endpoint of the new edge list, because the rows of \<open>C\<close> are relabeled to \<open>B\<close> in the same
  single pass.
\<close>

theorem grouping_counterexample:
  "chain_node 1 ''B'' (Some ''A'') \<in> set (nrows (nodelist chain_session))
   \<and> n_active (chain_node 1 ''B'' (Some ''A''))
   \<and> n_parent (chain_node 1 ''B'' (Some ''A'')) = Some ''A''
   \<and> fst (recalculate (explorer chain_log) chain_session) = Inr ()
   \<and> map (\<lambda>e. (e_source e, e_target e)) (erows (edgelist (snd (recalculate (explorer chain_log) chain_session))))
       = [(''A'', ''A''), (''A'', ''B''), (''B'', ''G'')]"
proof -
  have "edgelist (snd (recalculate (explorer chain_log) chain_session))
        = explorer_edgelist (updated_clickstream (explorer chain_log) chain_nodelist)"
    using recalculate_Inr [of "explorer chain_log" chain_session "()" "snd (recalculate (explorer chain_log) chain_session)"]
      chain_recalculate by (auto simp: prod_eq_iff chain_session_def explorer_def)
  then have "map (\<lambda>e. (e_source e, e_target e)) (erows (edgelist (snd (recalculate (explorer chain_log) chain_session))))
       = [(''A'', ''A''), (''A'', ''B''), (''B'', ''G'')]"
    by (simp add: chain_updated) (simp add: explorer_edgelist_def transitions_def user_events_def)
  then show ?thesis using chain_recalculate
    by (simp add: chain_session_def chain_nodelist_def chain_node_def)
qed

section \<open>Nodes and links of a payload\<close>

lemma prepare_node_fields:
  "prepare_node r nl np pos (idx, name) = Inr n \<Longrightarrow> p_index n = int idx \<and> p_name n = name"
  by (auto simp: prepare_node_def Let_def split: list.splits sum.splits)

lemma prepare_nodes_Inr:
  assumes "prepare_nodes r nl np pos = Inr (ns, nodes_set)"
  shows "nodes_set = map (\<lambda>n. (p_name n, n)) ns"
    and "map p_name ns = remdups (map n_name (nrows nl))"
    and "map p_index ns = map int [0..<length ns]"
proof -
  let ?names = "remdups (map n_name (nrows nl))"
  from assms have m: "map_err (prepare_node r nl np pos) (enumerate 0 ?names) = Inr ns"
    and ns: "nodes_set = map (\<lambda>n. (p_name n, n)) ns"
    by (auto simp: prepare_nodes_def split: sum.splits)
  show "nodes_set = map (\<lambda>n. (p_name n, n)) ns" by (rule ns)
  from m have "list_all2 (\<lambda>x n. prepare_node r nl np pos x = Inr n) (enumerate 0 ?names) ns"
    by (simp add: map_err_Inr_iff)
  then have a: "list_all2 (\<lambda>x n. p_index n = int (fst x) \<and> p_name n = snd x) (enumerate 0 ?names) ns"
    by (rule list_all2_mono) (auto dest: prepare_node_fields)
  then have len: "length ns = length ?names" by (auto dest: list_all2_lengthD)
  from a have "map p_name ns = map snd (enumerate 0 ?names)"
    by (induction rule: list_all2_induct) auto
  then show "map p_name ns = ?names" by simp
  from a have "map p_index ns = map (int \<circ> fst) (enumerate 0 ?names)"
    by (induction rule: list_all2_induct) auto
  then show "map p_index ns = map int [0..<length ns]" by (simp add: len flip: map_map)
qed

lemma nodes_set_lookup:
  assumes "prepare_nodes r nl np pos = Inr (ns, nodes_set)"
  shows "map_of nodes_set x = Some n \<Longrightarrow> n \<in> set ns \<and> p_name n = x"
    and "(map_of nodes_set x = None) = (x \<notin> set (map n_name (nrows nl)))"
proof -
  have ns: "nodes_set = map (\<lambda>n. (p_name n, n)) ns" using prepare_nodes_Inr(1) [OF assms] .
  { assume "map_of nodes_set x = Some n"
    then have "(x, n) \<in> set nodes_set" by (rule map_of_SomeD)
    then show "n \<in> set ns \<and> p_name n = x" using ns by auto }
  have "(map_of nodes_set x = None) = (x \<notin> fst ` set nodes_set)" by (simp add: map_of_eq_None_iff)
  also have "fst ` set nodes_set = set (map p_name ns)" using ns by (auto simp: image_iff)
  also have "\<dots> = set (map n_name (nrows nl))" using prepare_nodes_Inr(2) [OF assms] by simp
  finally show "(map_of nodes_set x = None) = (x \<notin> set (map n_name (nrows nl)))" .
qed

lemma prepare_edge_result:
  assumes "prepare_edge r el wc nodes_set row = Inr res"
  shows "res = (case (map_of nodes_set (e_source row), map_of nodes_set (e_target row)) of
                  (Some sn, Some tn) \<Rightarrow> res
                | _ \<Rightarrow> None)
         \<and> (\<forall>l. res = Some l \<longrightarrow> map_option p_index (map_of nodes_set (e_source row)) = Some (sourceIndex l)
                                \<and> map_option p_index (map_of nodes_set (e_target row)) = Some (targetIndex l)
                                \<and> l_type l = e_type row)
         \<and> (res = None \<longrightarrow> map_of nodes_set (e_source row) = None \<or> map_of nodes_set (e_target row) = None)"
  using assms
  by (auto simp: prepare_edge_def Let_def split: sum.splits option.splits if_splits)

lemma prepare_edges_Inr:
  assumes "prepare_edges r el nodes_set = (Inr ls, el')"
  shows "\<exists>col edges. 3 \<le> length (ecolumns el) \<and> edge_column el (ecolumns el ! 2) = Inr col
           \<and> el' = set_weight_norm el (ecolumns el ! 2) (abs_max col)
           \<and> map_err (prepare_edge r el' (ecolumns el ! 2) nodes_set) (erows el') = Inr edges
           \<and> ls = List.map_filter id edges"
  using assms
  by (auto simp: prepare_edges_def Let_def split: if_splits sum.splits)

lemma map_filter_links:
  assumes "list_all2 (\<lambda>row res. prepare_edge r el wc nodes_set row = Inr res) rows edges"
  shows "map (\<lambda>l. (Some (sourceIndex l), Some (targetIndex l))) (List.map_filter id edges)
         = map (\<lambda>row. (map_option p_index (map_of nodes_set (e_source row)),
                        map_option p_index (map_of nodes_set (e_target row))))
               (filter (\<lambda>row. map_of nodes_set (e_source row) \<noteq> None \<and> map_of nodes_set (e_target row) \<noteq> None) rows)"
  using assms
proof (induction rule: list_all2_induct)
  case Nil
  then show ?case by simp
next
  case (Cons row rows res edges)
  from prepare_edge_result [OF Cons.hyps(1)] Cons.IH
  show ?case
    by (cases res) (auto split: option.splits)
qed

lemma links_indices:
  assumes pn: "prepare_nodes r nl np pos = Inr (ns, nodes_set)"
    and pe: "prepare_edges r el nodes_set = (Inr ls, el')"
  shows "(\<forall>l \<in> set ls. sourceIndex l \<in> p_index ` set ns \<and> targetIndex l \<in> p_index ` set ns)
       \<and> map (\<lambda>l. (Some (sourceIndex l), Some (targetIndex l))) ls
         = map (\<lambda>row. (map_option p_index (map_of nodes_set (e_source row)),
                        map_option p_index (map_of nodes_set (e_target row))))
               (filter (\<lambda>row. e_source row \<in> set (map n_name (nrows nl)) \<and> e_target row \<in> set (map n_name (nrows nl)))
                  (erows el))"
proof -
  from prepare_edges_Inr [OF pe] obtain col edges where
    el': "el' = set_weight_norm el (ecolumns el ! 2) (abs_max col)"
    and me: "map_err (prepare_edge r el' (ecolumns el ! 2) nodes_set) (erows el') = Inr edges"
    and ls: "ls = List.map_filter id edges" by blast
  let ?pe = "prepare_edge r el' (ecolumns el ! 2) nodes_set"
  from me have la: "list_all2 (\<lambda>row res. ?pe row = Inr res) (erows el') edges"
    by (simp add: map_err_Inr_iff)
  have "\<forall>l \<in> set ls. sourceIndex l \<in> p_index ` set ns \<and> targetIndex l \<in> p_index ` set ns"
  proof
    fix l assume "l \<in> set ls"
    then have "Some l \<in> set edges" using ls by (auto simp: List.map_filter_def)
    then obtain i where i: "i < length edges" "edges ! i = Some l" by (auto simp: in_set_conv_nth)
    with la have "?pe (erows el' ! i) = Inr (Some l)" by (auto simp: list_all2_conv_all_nth)
    from prepare_edge_result [OF this]
    obtain sn tn where "map_of nodes_set (e_source (erows el' ! i)) = Some sn" "p_index sn = sourceIndex l"
      "map_of nodes_set (e_target (erows el' ! i)) = Some tn" "p_index tn = targetIndex l"
      by auto
    then show "sourceIndex l \<in> p_index ` set ns \<and> targetIndex l \<in> p_index ` set ns"
      using nodes_set_lookup(1) [OF pn] by (metis imageI)
  qed
  moreover
  have "map (\<lambda>l. (Some (sourceIndex l), Some (targetIndex l))) ls
         = map (\<lambda>row. (map_option p_index (map_of nodes_set (e_source row)),
                        map_option p_index (map_of nodes_set (e_target row))))
               (filter (\<lambda>row. map_of nodes_set (e_source row) \<noteq> None \<and> map_of nodes_set (e_target row) \<noteq> None) (erows el'))"
    unfolding ls using la by (rule map_filter_links)
  moreover have "\<dots> = map (\<lambda>row. (map_option p_index (map_of nodes_set (e_source row)),
                        map_option p_index (map_of nodes_set (e_target row))))
               (filter (\<lambda>row. map_of nodes_set (e_source row) \<noteq> None \<and> map_of nodes_set (e_target row) \<noteq> None) (erows el))"
    unfolding el' by (simp add: set_weight_norm_def filter_map comp_def)
  ultimately show ?thesis using nodes_set_lookup(2) [OF pn] by simp
qed

section \<open>The chain, recomputed\<close>

lemmas frame_defs = explorer_def explorer_nodelist_def explorer_edgelist_def log_events_def
  transitions_def user_events_def

lemmas payload_defs = prepare_nodes_def prepare_node_def node_degree_def node_column_def node_type_def
  dict_of_def cell_def series_max_def abs_max_def np_max2_def prepare_edges_def prepare_edge_def
  edge_column_def edge_cell_def set_weight_norm_def set_type_def add_column_def custom_weight_def

lemma chain_recalculated:
  "recalculate (explorer chain_log) chain_session =
     (Inr (),
      \<lparr>nodelist = \<lparr>ncolumns = [''number_of_events''],
                   nrows = [(chain_node 0 ''A'' None)\<lparr>n_cells := [(''number_of_events'', Fin 2)]\<rparr>,
                            chain_node 1 ''B'' (Some ''A''), chain_node 2 ''C'' (Some ''B''),
                            chain_node 3 ''D'' (Some ''G'')]\<rparr>,
       edgelist = \<lparr>ecolumns = [''event'', ''next_event'', ''edge_weight''],
                   erows = [\<lparr>e_source = ''A'', e_target = ''A'', e_cells = [(''edge_weight'', Fin 1)],
                             e_type = None, e_weight_norm = NaN\<rparr>,
                            \<lparr>e_source = ''A'', e_target = ''B'', e_cells = [(''edge_weight'', Fin 1)],
                             e_type = None, e_weight_norm = NaN\<rparr>,
                            \<lparr>e_source = ''B'', e_target = ''G'', e_cells = [(''edge_weight'', Fin 1)],
                             e_type = None, e_weight_norm = NaN\<rparr>]\<rparr>,
       layout = Some [\<lparr>ln_name = ''B'', ln_x = 10, ln_y = 20\<rparr>], updates = [], graph_updates = [],
       graph_settings = no_settings\<rparr>)"
proof -
  have n: "nodelist chain_session = chain_nodelist" by (simp add: chain_session_def)
  show ?thesis
    unfolding recalculate_def Let_def n chain_updated
    by (simp add: frame_defs chain_session_def chain_nodelist_def chain_node_def
          update_node_after_recalc_def cell_def recalculated_columns_def)
qed

lemma chain_request:
  "\<not> isl (fst (on_recalc_request (explorer chain_log) chain_session []))"
proof -
  have "on_nodelist_updated (chain_session\<lparr>updates := []\<rparr>) [] = chain_session"
    by (simp add: on_nodelist_updated_def chain_session_def)
  then show ?thesis
    unfolding on_recalc_request_def
    by (simp add: chain_recalculated) (simp add: payload_defs explorer_def chain_node_def Let_def)
qed

section \<open>The payload of a request\<close>

lemma on_recalc_request_Inr:
  assumes "on_recalc_request r s nds = (Inr p, s')"
  obtains u s2 ns nodes_set ls el where
    "recalculate r (on_nodelist_updated (s\<lparr>updates := nds\<rparr>) nds) = (Inr u, s2)"
    and "prepare_nodes r (nodelist s2) None None = Inr (ns, nodes_set)"
    and "prepare_edges r (set_type (edgelist s2) (\<lambda>_. Some ''suit'')) nodes_set = (Inr ls, el)"
    and "p = \<lparr>nodes = ns, links = ls\<rparr>" and "s' = s2\<lparr>edgelist := el\<rparr>"
proof -
  obtain res s2 where rc: "recalculate r (on_nodelist_updated (s\<lparr>updates := nds\<rparr>) nds) = (res, s2)"
    by (cases "recalculate r (on_nodelist_updated (s\<lparr>updates := nds\<rparr>) nds)")
  from assms rc obtain u where res: "res = Inr u"
    by (cases res) (auto simp: on_recalc_request_def)
  let ?el = "set_type (edgelist s2) (\<lambda>_. Some ''suit'')"
  from assms rc res obtain ns nodes_set where pn: "prepare_nodes r (nodelist s2) None None = Inr (ns, nodes_set)"
    by (cases "prepare_nodes r (nodelist s2) None None") (auto simp: on_recalc_request_def Let_def)
  obtain eres el where pe: "prepare_edges r ?el nodes_set = (eres, el)"
    by (cases "prepare_edges r ?el nodes_set")
  from assms rc res pn pe obtain ls where fin: "eres = Inr ls" "p = \<lparr>nodes = ns, links = ls\<rparr>" "s' = s2\<lparr>edgelist := el\<rparr>"
    by (cases eres) (auto simp: on_recalc_request_def Let_def)
  show thesis
    by (rule that [of u s2 ns nodes_set ls el]) (simp_all add: rc res pn pe fin)
qed

lemma make_template_data_Inr:
  assumes "make_template_data spring r s node_params width height = (Inr (ns, ls), s')"
  obtains computed pos nodes_set el where
    "calc_layout spring (set_type (edgelist s) (edge_type node_params)) width height = Inr computed"
    and "use_layout s computed = Inr pos"
    and "prepare_nodes r (nodelist s) (Some node_params) (Some pos) = Inr (ns, nodes_set)"
    and "prepare_edges r (set_type (edgelist s) (edge_type node_params)) nodes_set = (Inr ls, el)"
    and "s' = s"
proof -
  let ?el = "set_type (edgelist s) (edge_type node_params)"
  from assms have s: "s' = s" by (simp add: make_template_data_def Let_def)
  from assms obtain computed where cl: "calc_layout spring ?el width height = Inr computed"
    by (cases "calc_layout spring ?el width height") (auto simp: make_template_data_def Let_def)
  from assms cl obtain pos where ul: "use_layout s computed = Inr pos"
    by (cases "use_layout s computed") (auto simp: make_template_data_def Let_def)
  from assms cl ul obtain nodes_set where pn: "prepare_nodes r (nodelist s) (Some node_params) (Some pos) = Inr (ns, nodes_set)"
    by (cases "prepare_nodes r (nodelist s) (Some node_params) (Some pos)")
       (auto simp: make_template_data_def Let_def split: sum.splits)
  from assms cl ul pn have pe: "prepare_edges r ?el nodes_set = (Inr ls, snd (prepare_edges r ?el nodes_set))"
    by (cases "prepare_edges r ?el nodes_set") (auto simp: make_template_data_def Let_def split: sum.splits)
  show thesis
    by (rule that [of computed pos nodes_set "snd (prepare_edges r ?el nodes_set)"]) (simp_all add: cl ul pn s flip: pe)
qed

text \<open>
  Claim C9 (edge drop invariant). In the payload returned by the \<open>recalculate\<close> handler, and
  in the nodes and links \<open>_make_template_data\<close> returns for the rendered page, the source
  and target index of every link is the index of a node of the same payload. The links
  are, in order, the rows of the edge list whose source and target are both names of the
  node list, with the indices the node set gives these names: a row with an endpoint that
  is no node appends nothing, and raises nothing.
\<close>

theorem edge_drop_invariant:
  "(on_recalc_request r s nds = (Inr p, s') \<longrightarrow>
      (\<forall>l \<in> set (links p). sourceIndex l \<in> p_index ` set (nodes p) \<and> targetIndex l \<in> p_index ` set (nodes p)))
   \<and> (make_template_data spring r s node_params width height = (Inr (ns, ls), s'') \<longrightarrow>
      (\<forall>l \<in> set ls. sourceIndex l \<in> p_index ` set ns \<and> targetIndex l \<in> p_index ` set ns))
   \<and> (prepare_nodes r nl np pos = Inr (ns', nodes_set) \<and> prepare_edges r el nodes_set = (Inr ls', el') \<longrightarrow>
      map (\<lambda>l. (Some (sourceIndex l), Some (targetIndex l))) ls'
      = map (\<lambda>row. (map_option p_index (map_of nodes_set (e_source row)),
                     map_option p_index (map_of nodes_set (e_target row))))
            (filter (\<lambda>row. e_source row \<in> set (map n_name (nrows nl)) \<and> e_target row \<in> set (map n_name (nrows nl)))
               (erows el)))"
proof (intro conjI impI)
  assume "on_recalc_request r s nds = (Inr p, s')"
  then obtain u s2 ns0 nodes_set0 ls0 el0 where
    "recalculate r (on_nodelist_updated (s\<lparr>updates := nds\<rparr>) nds) = (Inr u, s2)"
    "prepare_nodes r (nodelist s2) None None = Inr (ns0, nodes_set0)"
    "prepare_edges r (set_type (edgelist s2) (\<lambda>_. Some ''suit'')) nodes_set0 = (Inr ls0, el0)"
    "p = \<lparr>nodes = ns0, links = ls0\<rparr>" "s' = s2\<lparr>edgelist := el0\<rparr>" by (rule on_recalc_request_Inr)
  then show "\<forall>l \<in> set (links p). sourceIndex l \<in> p_index ` set (nodes p) \<and> targetIndex l \<in> p_index ` set (nodes p)"
    using links_indices [of r "nodelist s2" None None ns0 nodes_set0] by simp
next
  assume "make_template_data spring r s node_params width height = (Inr (ns, ls), s'')"
  then obtain computed pos0 nodes_set0 el0 where
    "calc_layout spring (set_type (edgelist s) (edge_type node_params)) width height = Inr computed"
    "use_layout s computed = Inr pos0"
    "prepare_nodes r (nodelist s) (Some node_params) (Some pos0) = Inr (ns, nodes_set0)"
    "prepare_edges r (set_type (edgelist s) (edge_type node_params)) nodes_set0 = (Inr ls, el0)"
    "s'' = s"
    by (rule make_template_data_Inr)
  then show "\<forall>l \<in> set ls. sourceIndex l \<in> p_index ` set ns \<and> targetIndex l \<in> p_index ` set ns"
    using links_indices [of r "nodelist s" "Some node_params" "Some pos0" ns nodes_set0] by simp
next
  assume "prepare_nodes r nl np pos = Inr (ns', nodes_set) \<and> prepare_edges r el nodes_set = (Inr ls', el')"
  then show "map (\<lambda>l. (Some (sourceIndex l), Some (targetIndex l))) ls'
      = map (\<lambda>row. (map_option p_index (map_of nodes_set (e_source row)),
                     map_option p_index (map_of nodes_set (e_target row))))
            (filter (\<lambda>row. e_source row \<in> set (map n_name (nrows nl)) \<and> e_target row \<in> set (map n_name (nrows nl)))
               (erows el))"
    using links_indices [of r nl np pos ns' nodes_set el ls' el'] by simp
qed

text \<open>
  Claim C10 (the handler mutates the session's edge list). When the \<open>recalculate\<close> handler
  returns, the edge list of the session it leaves has the columns \<open>type\<close> and \<open>weight_norm\<close>:
  its rows are the rows of the recomputed edge list with \<open>type\<close> set to \<open>suit\<close> and
  \<open>weight_norm\<close> set to the quotient of the weight column by one divisor.
\<close>

theorem recalc_request_mutates_edgelist:
  assumes "on_recalc_request r s nds = (Inr p, s')"
  shows "''type'' \<in> set (ecolumns (edgelist s')) \<and> ''weight_norm'' \<in> set (ecolumns (edgelist s'))
       \<and> (\<forall>row \<in> set (erows (edgelist s')). e_type row = Some ''suit'')
       \<and> (\<exists>m. erows (edgelist s')
               = map (\<lambda>row. row\<lparr>e_type := Some ''suit'',
                               e_weight_norm := np_div (edge_cell row (ecolumns (edgelist s') ! 2)) m\<rparr>)
                     (erows (create_edgelist r (updated_clickstream r (nodelist (on_nodelist_updated (s\<lparr>updates := nds\<rparr>) nds))))))"
proof -
  let ?s1 = "on_nodelist_updated (s\<lparr>updates := nds\<rparr>) nds"
  let ?E = "create_edgelist r (updated_clickstream r (nodelist ?s1))"
  let ?T = "set_type ?E (\<lambda>_. Some ''suit'')"
  from assms obtain u s2 ns nodes_set ls el where
    rc: "recalculate r ?s1 = (Inr u, s2)"
    and "prepare_nodes r (nodelist s2) None None = Inr (ns, nodes_set)"
    and pe: "prepare_edges r (set_type (edgelist s2) (\<lambda>_. Some ''suit'')) nodes_set = (Inr ls, el)"
    and "p = \<lparr>nodes = ns, links = ls\<rparr>"
    and s': "s' = s2\<lparr>edgelist := el\<rparr>" by (rule on_recalc_request_Inr)
  have e2: "edgelist s2 = ?E" using recalculate_Inr [OF rc] by auto
  from prepare_edges_Inr [OF pe] e2 obtain col where
    len: "3 \<le> length (ecolumns ?T)"
    and el: "el = set_weight_norm ?T (ecolumns ?T ! 2) (abs_max col)" by auto
  have es: "edgelist s' = el" using s' by simp
  have c2: "ecolumns el ! 2 = ecolumns ?T ! 2"
    using len by (simp add: el set_weight_norm_def add_column_def nth_append)
  have "''type'' \<in> set (ecolumns el)" "''weight_norm'' \<in> set (ecolumns el)"
    by (simp_all add: el set_weight_norm_def set_type_def add_column_def)
  moreover have "\<forall>row \<in> set (erows el). e_type row = Some ''suit''"
    by (auto simp: el set_weight_norm_def set_type_def)
  moreover have "erows el = map (\<lambda>row. row\<lparr>e_type := Some ''suit'',
                               e_weight_norm := np_div (edge_cell row (ecolumns el ! 2)) (abs_max col)\<rparr>) (erows ?E)"
    unfolding c2 by (simp add: el set_weight_norm_def set_type_def edge_cell_def)
  ultimately show ?thesis unfolding es by blast
qed

section \<open>Threshold normalization\<close>

lemma truediv_Inr: "truediv v m = Inr q \<Longrightarrow> q = scalar_quotient v m"
  by (cases v) (simp_all split: if_splits)

lemma truediv_Inl: "truediv v m = Inl e \<Longrightarrow> e = ZeroDivisionError"
  by (cases v) (simp_all split: if_splits)

lemma norm_nodes_loop_zero:
  "(key, Py v) \<in> set t \<Longrightarrow> node_column nl key = Inr col \<Longrightarrow> abs_max col = Fin 0
     \<Longrightarrow> \<exists>e. norm_nodes_loop nl t acc = Inl e"
proof (induction t arbitrary: acc)
  case Nil
  then show ?case by simp
next
  case (Cons a t)
  obtain k w where a: "a = (k, w)" by (cases a)
  show ?case
  proof (cases "a = (key, Py v)")
    case True
    with Cons.prems show ?thesis by simp
  next
    case False
    with Cons.prems have "(key, Py v) \<in> set t" by simp
    from Cons.IH [OF this Cons.prems(2,3)] show ?thesis
      by (auto simp: a split: sum.splits)
  qed
qed

lemma norm_nodes_loop_error:
  "fst ` set t \<subseteq> set (ncolumns nl) \<Longrightarrow> norm_nodes_loop nl t acc = Inl e \<Longrightarrow> e = ZeroDivisionError"
proof (induction t arbitrary: acc)
  case Nil
  then show ?case by simp
next
  case (Cons a t)
  obtain k w where a: "a = (k, w)" by (cases a)
  from Cons.prems(1) have k: "k \<in> set (ncolumns nl)" and rest: "fst ` set t \<subseteq> set (ncolumns nl)"
    by (auto simp: a)
  from Cons.prems(2) Cons.IH [OF rest] show ?case
    by (auto simp: a k node_column_def split: sum.splits dest: truediv_Inl)
qed

lemma norm_links_loop_zero:
  assumes "(key, Py v) \<in> set t"
    and "key = get_nodelist_default_col r \<longrightarrow> scale = Fin 0"
    and "key \<noteq> get_nodelist_default_col r \<longrightarrow> edge_column el key = Inr col \<and> abs_max col = Fin 0"
  shows "\<exists>e. norm_links_loop r el scale t acc = Inl e"
  using assms
proof (induction t arbitrary: acc)
  case Nil
  then show ?case by simp
next
  case (Cons a t)
  obtain k w where a: "a = (k, w)" by (cases a)
  show ?case
  proof (cases "a = (key, Py v)")
    case True
    with Cons.prems show ?thesis by auto
  next
    case False
    with Cons.prems have "(key, Py v) \<in> set t" by simp
    from Cons.IH [OF this Cons.prems(2,3)] show ?thesis
      by (auto simp: a split: sum.splits)
  qed
qed

lemma norm_links_loop_error:
  "\<forall>k \<in> fst ` set t. k \<noteq> get_nodelist_default_col r \<longrightarrow> (\<exists>c. edge_column el k = Inr c)
     \<Longrightarrow> norm_links_loop r el scale t acc = Inl e \<Longrightarrow> e = ZeroDivisionError"
proof (induction t arbitrary: acc)
  case Nil
  then show ?case by simp
next
  case (Cons a t)
  obtain k w where a: "a = (k, w)" by (cases a)
  from Cons.prems(1) have k: "k \<noteq> get_nodelist_default_col r \<longrightarrow> (\<exists>c. edge_column el k = Inr c)"
    and rest: "\<forall>k \<in> fst ` set t. k \<noteq> get_nodelist_default_col r \<longrightarrow> (\<exists>c. edge_column el k = Inr c)"
    by (auto simp: a)
  from Cons.prems(2) Cons.IH [OF rest] k show ?case
    by (auto simp: a split: sum.splits if_splits dest: truediv_Inl)
qed

lemma get_norm_node_threshold_state: "snd (get_norm_node_threshold s t) = s"
  by (simp add: get_norm_node_threshold_def split: option.splits sum.splits)

lemma get_norm_link_threshold_state: "snd (get_norm_link_threshold r s t) = s"
  by (simp add: get_norm_link_threshold_def split: option.splits sum.splits)

lemma make_template_data_state: "snd (make_template_data spring r s node_params width height) = s"
  by (simp add: make_template_data_def Let_def)

lemma apply_settings_thresholds:
  "gs_nodes_threshold (apply_settings s a b c d e) = gs_nodes_threshold (graph_settings s)"
  "gs_links_threshold (apply_settings s a b c d e) = gs_links_threshold (graph_settings s)"
  by (simp_all add: apply_settings_def Let_def split: option.splits)

lemma plot_graph_nodes_fail:
  assumes "gs_nodes_threshold (graph_settings s) = None"
    and "get_norm_node_threshold s nt = (Inl e, s)"
  shows "plot_graph spring r s targets width height a b c d f nt lt = (Inl e, s)"
  using assms by (simp add: plot_graph_def Let_def apply_settings_thresholds)

lemma plot_graph_links_fail:
  assumes "gs_links_threshold (graph_settings s) = None"
    and "get_norm_link_threshold r s lt = (Inl e, s)"
  shows "\<exists>e'. plot_graph spring r s targets width height a b c d f nt lt = (Inl e', s)"
proof -
  let ?st = "apply_settings s a b c d f"
  let ?n = "case gs_nodes_threshold ?st of Some stored \<Rightarrow> (Inr (Some stored), s)
            | None \<Rightarrow> get_norm_node_threshold s nt"
  have sn: "snd ?n = s" by (simp add: get_norm_node_threshold_state split: option.splits)
  show ?thesis
  proof (cases "fst ?n")
    case (Inl e1)
    with sn have "?n = (Inl e1, s)" by (simp add: prod_eq_iff)
    then show ?thesis by (simp add: plot_graph_def Let_def)
  next
    case (Inr v)
    with sn have "?n = (Inr v, s)" by (simp add: prod_eq_iff)
    then show ?thesis using assms by (simp add: plot_graph_def Let_def apply_settings_thresholds)
  qed
qed

text \<open>
  Claim C2 (a zero scale fails the threshold request), amended. Let a threshold be
  requested as a Python number for a key whose governing column has the maximal absolute
  value zero: for a node threshold the key's own column of the node list; for a link
  threshold the column the code divides by, the default column of the edge list when the
  key is the default column name of the node list and the key's own column of the edge
  list otherwise. Then \<open>_get_norm_node_threshold\<close> and \<open>_get_norm_link_threshold\<close> raise, and
  the session is the one before the call. The exception is Python's \<open>ZeroDivisionError\<close>
  whenever every key requested names a numeric column (and the edge list has its default
  column). \<open>plot_graph\<close> raises as well and leaves the session as it was, provided the stored
  graph settings hold no threshold of the kind requested.
\<close>

theorem zero_scale_threshold_fails:
  assumes "(key, Py v) \<in> set t"
  shows "(node_column (nodelist s) key = Inr col \<and> abs_max col = Fin 0 \<longrightarrow>
            (\<exists>e. get_norm_node_threshold s (Some t) = (Inl e, s)
                \<and> (fst ` set t \<subseteq> set (ncolumns (nodelist s)) \<longrightarrow> e = ZeroDivisionError)
                \<and> (gs_nodes_threshold (graph_settings s) = None \<longrightarrow>
                     plot_graph spring r s targets width height show_w show_p show_n show_a show_l
                       (Some t) links_thr = (Inl e, s))))
       \<and> (edge_column (edgelist s) (if key = get_nodelist_default_col r then get_edgelist_default_col r else key) = Inr col'
            \<and> abs_max col' = Fin 0 \<longrightarrow>
            (\<exists>e. get_norm_link_threshold r s (Some t) = (Inl e, s)
                \<and> ((\<exists>c. edge_column (edgelist s) (get_edgelist_default_col r) = Inr c)
                     \<and> (\<forall>k \<in> fst ` set t. k \<noteq> get_nodelist_default_col r \<longrightarrow> (\<exists>c. edge_column (edgelist s) k = Inr c))
                     \<longrightarrow> e = ZeroDivisionError)
                \<and> (gs_links_threshold (graph_settings s) = None \<longrightarrow>
                     (\<exists>e'. plot_graph spring r s targets width height show_w show_p show_n show_a show_l
                        nodes_thr (Some t) = (Inl e', s)))))"
proof (intro conjI impI)
  assume z: "node_column (nodelist s) key = Inr col \<and> abs_max col = Fin 0"
  then obtain e where e: "norm_nodes_loop (nodelist s) t [] = Inl e"
    using norm_nodes_loop_zero [OF assms, of "nodelist s" col "[]"] by blast
  then have r: "get_norm_node_threshold s (Some t) = (Inl e, s)" by (simp add: get_norm_node_threshold_def)
  moreover have "fst ` set t \<subseteq> set (ncolumns (nodelist s)) \<longrightarrow> e = ZeroDivisionError"
    using norm_nodes_loop_error [OF _ e] by blast
  moreover have "gs_nodes_threshold (graph_settings s) = None \<longrightarrow>
                     plot_graph spring r s targets width height show_w show_p show_n show_a show_l
                       (Some t) links_thr = (Inl e, s)"
    using plot_graph_nodes_fail [OF _ r] by blast
  ultimately show "\<exists>e. get_norm_node_threshold s (Some t) = (Inl e, s)
                \<and> (fst ` set t \<subseteq> set (ncolumns (nodelist s)) \<longrightarrow> e = ZeroDivisionError)
                \<and> (gs_nodes_threshold (graph_settings s) = None \<longrightarrow>
                     plot_graph spring r s targets width height show_w show_p show_n show_a show_l
                       (Some t) links_thr = (Inl e, s))"
    by (intro exI [of _ e] conjI)
next
  let ?ndc = "get_nodelist_default_col r" and ?edc = "get_edgelist_default_col r"
  assume z: "edge_column (edgelist s) (if key = ?ndc then ?edc else key) = Inr col' \<and> abs_max col' = Fin 0"
  let ?all = "(\<exists>c. edge_column (edgelist s) ?edc = Inr c)
                \<and> (\<forall>k \<in> fst ` set t. k \<noteq> ?ndc \<longrightarrow> (\<exists>c. edge_column (edgelist s) k = Inr c))"
  let ?plot = "\<lambda>e'. plot_graph spring r s targets width height show_w show_p show_n show_a show_l
                        nodes_thr (Some t) = (Inl e', s)"
  have "\<exists>e. get_norm_link_threshold r s (Some t) = (Inl e, s) \<and> (?all \<longrightarrow> e = ZeroDivisionError)"
  proof (cases "edge_column (edgelist s) ?edc")
    case (Inl e0)
    then have "?all \<longrightarrow> e0 = ZeroDivisionError" by simp
    with Inl show ?thesis by (simp add: get_norm_link_threshold_def)
  next
    case (Inr c0)
    have "key = ?ndc \<longrightarrow> abs_max c0 = Fin 0" using z Inr by auto
    moreover have "key \<noteq> ?ndc \<longrightarrow> edge_column (edgelist s) key = Inr col' \<and> abs_max col' = Fin 0"
      using z by auto
    ultimately obtain e where e: "norm_links_loop r (edgelist s) (abs_max c0) t [] = Inl e"
      using norm_links_loop_zero [OF assms, of r "abs_max c0" "edgelist s" col' "[]"] by blast
    then have "get_norm_link_threshold r s (Some t) = (Inl e, s)"
      by (simp add: get_norm_link_threshold_def Inr)
    moreover have "?all \<longrightarrow> e = ZeroDivisionError"
      using norm_links_loop_error [OF _ e] by blast
    ultimately show ?thesis by (intro exI [of _ e] conjI)
  qed
  then obtain e where r: "get_norm_link_threshold r s (Some t) = (Inl e, s)"
    and sp: "?all \<longrightarrow> e = ZeroDivisionError" by blast
  have pl: "gs_links_threshold (graph_settings s) = None \<longrightarrow> (\<exists>e'. ?plot e')"
    using plot_graph_links_fail [OF _ r] by blast
  from r sp pl show "\<exists>e. get_norm_link_threshold r s (Some t) = (Inl e, s) \<and> (?all \<longrightarrow> e = ZeroDivisionError)
                    \<and> (gs_links_threshold (graph_settings s) = None \<longrightarrow> (\<exists>e'. ?plot e'))"
    by (intro exI [of _ e] conjI)
qed

section \<open>The requests on concrete sessions\<close>

lemma chain_no_edits: "on_nodelist_updated (chain_session\<lparr>updates := []\<rparr>) [] = chain_session"
  by (simp add: on_nodelist_updated_def chain_session_def)

lemma not_isl_pair: "\<not> isl (fst x) \<Longrightarrow> x = (Inr (projr (fst x)), snd x)"
  by (cases x; cases "fst x") auto

text \<open>
  On the chain the handler returns and leaves both columns in the session.
\<close>

theorem recalc_request_mutates_edgelist_witness:
  "\<not> isl (fst (on_recalc_request (explorer chain_log) chain_session []))
   \<and> ''type'' \<in> set (ecolumns (edgelist (snd (on_recalc_request (explorer chain_log) chain_session []))))
   \<and> ''weight_norm'' \<in> set (ecolumns (edgelist (snd (on_recalc_request (explorer chain_log) chain_session []))))
   \<and> e_type ` set (erows (edgelist (snd (on_recalc_request (explorer chain_log) chain_session [])))) \<subseteq> {Some ''suit''}"
  using recalc_request_mutates_edgelist [OF not_isl_pair [OF chain_request]] chain_request
  by auto

text \<open>
  A threshold of 5 on the default metric of a session whose metrics are all zero, requested
  from the two normalizations and through \<open>plot_graph\<close>.
\<close>

theorem zero_scale_threshold_fails_witness:
  "get_norm_node_threshold zero_session (Some [(''number_of_events'', Py (Fin 5))])
     = (Inl ZeroDivisionError, zero_session)
   \<and> plot_graph loop_spring (explorer []) zero_session None 960 900 None None None None None
       (Some [(''number_of_events'', Py (Fin 5))]) None = (Inl ZeroDivisionError, zero_session)
   \<and> get_norm_link_threshold (explorer []) zero_session (Some [(''number_of_events'', Py (Fin 5))])
       = (Inl ZeroDivisionError, zero_session)
   \<and> isl (fst (plot_graph loop_spring (explorer []) zero_session None 960 900 None None None None None
       None (Some [(''number_of_events'', Py (Fin 5))])))
   \<and> snd (plot_graph loop_spring (explorer []) zero_session None 960 900 None None None None None
       None (Some [(''number_of_events'', Py (Fin 5))])) = zero_session"
proof -
  let ?t = "[(''number_of_events'', Py (Fin 5))]"
  have n: "node_column (nodelist zero_session) ''number_of_events'' = Inr [Fin 0] \<and> abs_max [Fin 0] = Fin 0"
    by (simp add: zero_session_def node_column_def cell_def abs_max_def series_max_def chain_node_def)
  have e: "edge_column (edgelist zero_session)
             (if ''number_of_events'' = get_nodelist_default_col (explorer [])
              then get_edgelist_default_col (explorer []) else ''number_of_events'') = Inr [Fin 0]
           \<and> abs_max [Fin 0] = Fin 0"
    by (simp add: zero_session_def edge_column_def edge_cell_def cell_def abs_max_def series_max_def explorer_def)
  have k: "fst ` set ?t \<subseteq> set (ncolumns (nodelist zero_session))"
    by (simp add: zero_session_def)
  have c: "(\<exists>c. edge_column (edgelist zero_session) (get_edgelist_default_col (explorer [])) = Inr c)
           \<and> (\<forall>k \<in> fst ` set ?t. k \<noteq> get_nodelist_default_col (explorer [])
                 \<longrightarrow> (\<exists>c. edge_column (edgelist zero_session) k = Inr c))"
    by (simp add: zero_session_def edge_column_def explorer_def)
  have g: "gs_nodes_threshold (graph_settings zero_session) = None"
    and gl: "gs_links_threshold (graph_settings zero_session) = None"
    by (simp_all add: zero_session_def no_settings_def)
  have m: "(''number_of_events'', Py (Fin 5)) \<in> set ?t" by simp
  note inst = zero_scale_threshold_fails [OF m, where s = zero_session and col = "[Fin 0]" and r = "explorer []"
      and col' = "[Fin 0]" and spring = loop_spring and targets = None and width = 960 and height = 900
      and show_w = None and show_p = None and show_n = None and show_a = None and show_l = None
      and links_thr = None and nodes_thr = None]
  from inst [THEN conjunct1, THEN mp, OF n] k g
  have a: "get_norm_node_threshold zero_session (Some ?t) = (Inl ZeroDivisionError, zero_session)"
    and b: "plot_graph loop_spring (explorer []) zero_session None 960 900 None None None None None
       (Some ?t) None = (Inl ZeroDivisionError, zero_session)"
    by auto
  from inst [THEN conjunct2, THEN mp, OF e] c gl
  have d: "get_norm_link_threshold (explorer []) zero_session (Some ?t) = (Inl ZeroDivisionError, zero_session)"
    and "\<exists>e'. plot_graph loop_spring (explorer []) zero_session None 960 900 None None None None None
       None (Some ?t) = (Inl e', zero_session)"
    by auto
  then have f: "isl (fst (plot_graph loop_spring (explorer []) zero_session None 960 900 None None None None None
       None (Some ?t)))"
    and h: "snd (plot_graph loop_spring (explorer []) zero_session None 960 900 None None None None None
       None (Some ?t)) = zero_session" by auto
  show ?thesis by (intro conjI) (rule a b d f h)+
qed

lemma zero_template:
  "\<not> isl (fst (make_template_data loop_spring (explorer []) (zero_session\<lparr>graph_settings := g\<rparr>) [] 960 900))"
  unfolding make_template_data_def Let_def
  by (simp add: zero_session_def calc_layout_def loop_spring_def rescale_def use_layout_def
        set_type_def add_column_def edge_type_def chain_node_def explorer_def payload_defs Let_def)

text \<open>
  Claim C2 as stated fails in three ways. A threshold given as a numpy scalar is divided by
  numpy's rules, since the code converts only the divisor with \<open>float\<close>: over a zero maximum
  the request returns the threshold \<open>inf\<close> and raises nothing. A link threshold under the
  default column name of the node list is divided by the maximum of the edge list's default
  column: the key's own column is all zero, the default weights reach 8, and the request
  returns \<open>5 / 8\<close>. And when the stored graph settings hold a node threshold, \<open>plot_graph\<close>
  takes it and never normalizes the requested one: the request returns.
\<close>

theorem zero_scale_threshold_counterexample:
  "node_column (nodelist zero_session) ''number_of_events'' = Inr [Fin 0]
   \<and> abs_max [Fin 0] = Fin 0
   \<and> get_norm_node_threshold zero_session (Some [(''number_of_events'', Np (Fin 5))])
       = (Inr (Some [(''number_of_events'', Np PInf)]), zero_session)
   \<and> edge_column (edgelist shadow_session) ''number_of_events'' = Inr [Fin 0, Fin 0]
   \<and> abs_max [Fin 0, Fin 0] = Fin 0
   \<and> get_norm_link_threshold (explorer []) shadow_session (Some [(''number_of_events'', Py (Fin 5))])
       = (Inr (Some [(''number_of_events'', Py (Fin (5 / 8)))]), shadow_session)
   \<and> \<not> isl (fst (plot_graph loop_spring (explorer [])
                   (zero_session\<lparr>graph_settings := no_settings\<lparr>gs_nodes_threshold := Some [(''number_of_events'', Py (Fin (1 / 2)))]\<rparr>\<rparr>)
                   None 960 900 None None None None None (Some [(''number_of_events'', Py (Fin 5))]) None))
   \<and> g_nodes_threshold (projr (fst (plot_graph loop_spring (explorer [])
                   (zero_session\<lparr>graph_settings := no_settings\<lparr>gs_nodes_threshold := Some [(''number_of_events'', Py (Fin (1 / 2)))]\<rparr>\<rparr>)
                   None 960 900 None None None None None (Some [(''number_of_events'', Py (Fin 5))]) None)))
       = Some [(''number_of_events'', Py (Fin (1 / 2)))]"
proof -
  let ?g = "no_settings\<lparr>gs_nodes_threshold := Some [(''number_of_events'', Py (Fin (1 / 2)))]\<rparr>"
  let ?s = "zero_session\<lparr>graph_settings := ?g\<rparr>"
  have a: "node_column (nodelist zero_session) ''number_of_events'' = Inr [Fin 0]"
    by (simp add: zero_session_def node_column_def cell_def chain_node_def)
  have z: "abs_max [Fin 0] = Fin 0" and z2: "abs_max [Fin 0, Fin 0] = Fin 0"
    by (simp_all add: abs_max_def series_max_def np_max2_def)
  have b: "get_norm_node_threshold zero_session (Some [(''number_of_events'', Np (Fin 5))])
       = (Inr (Some [(''number_of_events'', Np PInf)]), zero_session)"
    by (simp add: get_norm_node_threshold_def a z)
  have c: "edge_column (edgelist shadow_session) ''number_of_events'' = Inr [Fin 0, Fin 0]"
    and c': "edge_column (edgelist shadow_session) ''edge_weight'' = Inr [Fin 4, Fin (- 8)]"
    by (simp_all add: shadow_session_def edge_column_def edge_cell_def cell_def)
  have m: "abs_max [Fin 4, Fin (- 8)] = Fin 8" by (simp add: abs_max_def series_max_def np_max2_def)
  have d: "get_norm_link_threshold (explorer []) shadow_session (Some [(''number_of_events'', Py (Fin 5))])
       = (Inr (Some [(''number_of_events'', Py (Fin (5 / 8)))]), shadow_session)"
    by (simp add: get_norm_link_threshold_def explorer_def c' m)
  have l: "get_norm_link_threshold (explorer []) ?s None = (Inr None, ?s)"
    by (simp add: get_norm_link_threshold_def explorer_def zero_session_def edge_column_def)
  obtain ns ls where t: "make_template_data loop_spring (explorer []) ?s [] 960 900 = (Inr (ns, ls), ?s)"
    using zero_template [of ?g] make_template_data_state [of loop_spring "explorer []" ?s "[]" 960 900]
    by (cases "make_template_data loop_spring (explorer []) ?s [] 960 900"; cases "fst (make_template_data loop_spring (explorer []) ?s [] 960 900)") auto
  have np: "make_node_params (explorer []) None = []"
    by (simp add: make_node_params_def explorer_def)
  have st: "gs_nodes_threshold (graph_settings ?s) = Some [(''number_of_events'', Py (Fin (1 / 2)))]"
    and sl: "gs_links_threshold (graph_settings ?s) = None"
    by (simp_all add: no_settings_def)
  have p: "plot_graph loop_spring (explorer []) ?s None 960 900 None None None None None
             (Some [(''number_of_events'', Py (Fin 5))]) None
           = (Inr \<lparr>g_nodes = ns, g_links = ls, g_node_params = [],
                    g_settings = apply_settings ?s None None None None None,
                    g_nodes_threshold = Some [(''number_of_events'', Py (Fin (1 / 2)))],
                    g_links_threshold = None\<rparr>, ?s)"
    unfolding plot_graph_def Let_def apply_settings_thresholds st sl np
    by (simp add: l t)
  have e: "\<not> isl (fst (plot_graph loop_spring (explorer []) ?s None 960 900 None None None None None
             (Some [(''number_of_events'', Py (Fin 5))]) None))"
    and f: "g_nodes_threshold (projr (fst (plot_graph loop_spring (explorer []) ?s None 960 900 None None None None None
             (Some [(''number_of_events'', Py (Fin 5))]) None))) = Some [(''number_of_events'', Py (Fin (1 / 2)))]"
    unfolding p by simp_all
  show ?thesis by (intro conjI) (rule a z b c z2 d e f)+
qed

text \<open>
  On the chain both the recomputation and the handler return, and repeating them changes
  nothing.
\<close>

theorem recalculate_idempotent_witness:
  "fst (recalculate (explorer chain_log) chain_session) = Inr ()
   \<and> recalculate (explorer chain_log) (snd (recalculate (explorer chain_log) chain_session))
       = (Inr (), snd (recalculate (explorer chain_log) chain_session))
   \<and> \<not> isl (fst (on_recalc_request (explorer chain_log) chain_session []))
   \<and> on_recalc_request (explorer chain_log) (snd (on_recalc_request (explorer chain_log) chain_session [])) []
       = on_recalc_request (explorer chain_log) chain_session []"
proof -
  let ?R = "recalculate (explorer chain_log) chain_session"
  let ?X = "on_recalc_request (explorer chain_log) chain_session []"
  have rc: "?R = (Inr (), snd ?R)" using chain_recalculate by (simp add: prod_eq_iff)
  have x: "?X = (Inr (projr (fst ?X)), snd ?X)" using chain_request by (rule not_isl_pair)
  note inst = recalculate_idempotent [of "explorer chain_log" chain_session "()" "snd ?R" "projr (fst ?X)" "snd ?X"]
  have a: "recalculate (explorer chain_log) (snd ?R) = (Inr (), snd ?R)"
    using inst [THEN conjunct1, THEN mp, OF rc] .
  have "on_recalc_request (explorer chain_log) (snd ?X) [] = (Inr (projr (fst ?X)), snd ?X)"
    using inst [THEN conjunct2, THEN mp, OF x] .
  then have b: "on_recalc_request (explorer chain_log) (snd ?X) [] = ?X" using x by simp
  show ?thesis
    by (intro conjI) (rule chain_recalculate a chain_request b)+
qed

section \<open>The template data of the chain\<close>

lemma chain_typed:
  "set_type (edgelist chain_session) (edge_type []) =
     \<lparr>ecolumns = [''event'', ''next_event'', ''edge_weight'', ''type''],
      erows = [\<lparr>e_source = ''B'', e_target = ''A'', e_cells = [(''edge_weight'', Fin 1)],
                e_type = Some ''suit'', e_weight_norm = NaN\<rparr>,
               \<lparr>e_source = ''A'', e_target = ''C'', e_cells = [(''edge_weight'', Fin 1)],
                e_type = Some ''suit'', e_weight_norm = NaN\<rparr>,
               \<lparr>e_source = ''C'', e_target = ''D'', e_cells = [(''edge_weight'', Fin 1)],
                e_type = Some ''suit'', e_weight_norm = NaN\<rparr>]\<rparr>"
  by (simp add: chain_session_def chain_log_def frame_defs set_type_def add_column_def edge_type_def)

lemma chain_layout:
  "calc_layout chain_spring el 960 900 =
     (if length (ecolumns el) < 3 then Inl IndexError
      else Inr [(''B'', Fin 75, Fin 50), (''A'', Fin 885, Fin 850), (''C'', Fin 480, Fin 450), (''D'', Fin 885, Fin 50)])"
  by (simp add: calc_layout_def chain_spring_def rescale_def)

lemma chain_use_layout:
  "use_layout chain_session [(''B'', Fin 75, Fin 50), (''A'', Fin 885, Fin 850), (''C'', Fin 480, Fin 450), (''D'', Fin 885, Fin 50)]
   = Inr [(''B'', Fin 10, Fin 20), (''A'', Fin 885, Fin 850), (''C'', Fin 480, Fin 450), (''D'', Fin 885, Fin 50)]"
  by (simp add: use_layout_def chain_session_def)

lemma chain_template_nodes:
  "\<not> isl (prepare_nodes (explorer chain_log) (nodelist chain_session) (Some [])
      (Some [(''B'', Fin 10, Fin 20), (''A'', Fin 885, Fin 850), (''C'', Fin 480, Fin 450), (''D'', Fin 885, Fin 50)]))"
  by (simp add: chain_session_def chain_nodelist_def chain_node_def explorer_def
      prepare_nodes_def prepare_node_def node_degree_def node_column_def node_type_def
      dict_of_def cell_def series_max_def np_max2_def)


lemma chain_template_edges:
  "\<not> isl (fst (prepare_edges (explorer chain_log) (set_type (edgelist chain_session) (edge_type [])) nodes_set))"
  unfolding chain_typed
  by (simp add: prepare_edges_def prepare_edge_def edge_column_def edge_cell_def set_weight_norm_def
        add_column_def explorer_def Let_def split: option.splits)

lemma chain_template:
  "\<not> isl (fst (make_template_data chain_spring (explorer chain_log) chain_session [] 960 900))"
proof -
  let ?pos = "[(''B'', Fin 10, Fin 20), (''A'', Fin 885, Fin 850), (''C'', Fin 480, Fin 450), (''D'', Fin 885, Fin 50)]"
  let ?el = "set_type (edgelist chain_session) (edge_type [])"
  have cl: "calc_layout chain_spring ?el 960 900
            = Inr [(''B'', Fin 75, Fin 50), (''A'', Fin 885, Fin 850), (''C'', Fin 480, Fin 450), (''D'', Fin 885, Fin 50)]"
    by (simp add: chain_layout) (simp add: chain_typed)
  obtain ns nodes_set where pn: "prepare_nodes (explorer chain_log) (nodelist chain_session) (Some []) (Some ?pos) = Inr (ns, nodes_set)"
    using chain_template_nodes
    by (cases "prepare_nodes (explorer chain_log) (nodelist chain_session) (Some []) (Some ?pos)") auto
  obtain ls where pe: "fst (prepare_edges (explorer chain_log) ?el nodes_set) = Inr ls"
    using chain_template_edges [of nodes_set]
    by (cases "fst (prepare_edges (explorer chain_log) ?el nodes_set)") auto
  show ?thesis
    unfolding make_template_data_def Let_def cl
    by (simp add: chain_use_layout pn pe)
qed

text \<open>
  On the chain the handler and the template data return; the edge \<open>B \<rightarrow> G\<close>, whose target is
  no node, stays in the edge list of the session and is missing from the two links.
\<close>

theorem edge_drop_invariant_witness:
  "\<not> isl (fst (on_recalc_request (explorer chain_log) chain_session []))
   \<and> sourceIndex ` set (links (projr (fst (on_recalc_request (explorer chain_log) chain_session []))))
       \<subseteq> p_index ` set (nodes (projr (fst (on_recalc_request (explorer chain_log) chain_session []))))
   \<and> targetIndex ` set (links (projr (fst (on_recalc_request (explorer chain_log) chain_session []))))
       \<subseteq> p_index ` set (nodes (projr (fst (on_recalc_request (explorer chain_log) chain_session []))))
   \<and> length (links (projr (fst (on_recalc_request (explorer chain_log) chain_session [])))) = 2
   \<and> length (erows (edgelist (snd (on_recalc_request (explorer chain_log) chain_session [])))) = 3
   \<and> \<not> isl (fst (make_template_data chain_spring (explorer chain_log) chain_session [] 960 900))
   \<and> sourceIndex ` set (snd (projr (fst (make_template_data chain_spring (explorer chain_log) chain_session [] 960 900))))
       \<subseteq> p_index ` set (fst (projr (fst (make_template_data chain_spring (explorer chain_log) chain_session [] 960 900))))"
proof -
  let ?X = "on_recalc_request (explorer chain_log) chain_session []"
  let ?Y = "make_template_data chain_spring (explorer chain_log) chain_session [] 960 900"
  let ?p = "projr (fst ?X)"
  have x: "?X = (Inr ?p, snd ?X)" using chain_request by (rule not_isl_pair)
  have y: "?Y = (Inr (fst (projr (fst ?Y)), snd (projr (fst ?Y))), snd ?Y)"
    using not_isl_pair [OF chain_template] by simp
  from x obtain u s2 ns nodes_set ls el where
    rc: "recalculate (explorer chain_log) (on_nodelist_updated (chain_session\<lparr>updates := []\<rparr>) []) = (Inr u, s2)"
    and pn: "prepare_nodes (explorer chain_log) (nodelist s2) None None = Inr (ns, nodes_set)"
    and pe: "prepare_edges (explorer chain_log) (set_type (edgelist s2) (\<lambda>_. Some ''suit'')) nodes_set = (Inr ls, el)"
    and p: "?p = \<lparr>nodes = ns, links = ls\<rparr>" and s': "snd ?X = s2\<lparr>edgelist := el\<rparr>"
    by (rule on_recalc_request_Inr)
  have s2: "s2 = snd (recalculate (explorer chain_log) chain_session)" using rc by (simp add: chain_no_edits)
  note inst = edge_drop_invariant [of "explorer chain_log" chain_session "[]" ?p "snd ?X"
      chain_spring "[]" 960 900 "fst (projr (fst ?Y))" "snd (projr (fst ?Y))" "snd ?Y"
      "nodelist s2" None None ns nodes_set "set_type (edgelist s2) (\<lambda>_. Some ''suit'')" ls el]
  have a: "\<forall>l \<in> set (links ?p). sourceIndex l \<in> p_index ` set (nodes ?p) \<and> targetIndex l \<in> p_index ` set (nodes ?p)"
    using inst [THEN conjunct1, THEN mp, OF x] .
  have b: "\<forall>l \<in> set (snd (projr (fst ?Y))). sourceIndex l \<in> p_index ` set (fst (projr (fst ?Y)))
                \<and> targetIndex l \<in> p_index ` set (fst (projr (fst ?Y)))"
    using inst [THEN conjunct2, THEN conjunct1, THEN mp, OF y] .
  have n2: "map n_name (nrows (nodelist s2)) = [''A'', ''B'', ''C'', ''D'']"
    and e2: "map (\<lambda>row. (e_source row, e_target row)) (erows (edgelist s2)) = [(''A'', ''A''), (''A'', ''B''), (''B'', ''G'')]"
    unfolding s2 chain_recalculated by (simp_all add: chain_node_def)
  have "map (\<lambda>l. (Some (sourceIndex l), Some (targetIndex l))) ls
      = map (\<lambda>row. (map_option p_index (map_of nodes_set (e_source row)),
                     map_option p_index (map_of nodes_set (e_target row))))
          (filter (\<lambda>row. e_source row \<in> set (map n_name (nrows (nodelist s2))) \<and> e_target row \<in> set (map n_name (nrows (nodelist s2))))
           (erows (set_type (edgelist s2) (\<lambda>_. Some ''suit''))))"
    using inst [THEN conjunct2, THEN conjunct2, THEN mp, OF conjI [OF pn pe]] .
  then have "length ls = length (filter (\<lambda>row. e_source row \<in> set (map n_name (nrows (nodelist s2))) \<and> e_target row \<in> set (map n_name (nrows (nodelist s2))))
           (erows (set_type (edgelist s2) (\<lambda>_. Some ''suit''))))"
    by (rule map_eq_imp_length_eq)
  also have "\<dots> = length (filter (\<lambda>st. fst st \<in> set (map n_name (nrows (nodelist s2))) \<and> snd st \<in> set (map n_name (nrows (nodelist s2))))
           (map (\<lambda>row. (e_source row, e_target row)) (erows (edgelist s2))))"
    by (simp add: set_type_def filter_map comp_def)
  also have "\<dots> = 2" unfolding n2 e2 by simp
  finally have c: "length ls = 2" .
  have el: "length (erows el) = length (erows (edgelist s2))"
    using prepare_edges_Inr [OF pe] by (auto simp: set_weight_norm_def set_type_def)
  have "length (erows (edgelist s2)) = length (map (\<lambda>row. (e_source row, e_target row)) (erows (edgelist s2)))"
    by simp
  also have "\<dots> = 3" unfolding e2 by simp
  finally have d: "length (erows (edgelist (snd ?X))) = 3" using el by (simp add: s')
  have c': "length (links ?p) = 2" using c by (simp add: p)
  from a have a1: "sourceIndex ` set (links ?p) \<subseteq> p_index ` set (nodes ?p)"
    and a2: "targetIndex ` set (links ?p) \<subseteq> p_index ` set (nodes ?p)" by blast+
  from b have b1: "sourceIndex ` set (snd (projr (fst ?Y))) \<subseteq> p_index ` set (fst (projr (fst ?Y)))" by blast
  show ?thesis
    by (intro conjI) (rule chain_request a1 a2 c' d chain_template b1)+
qed

section \<open>Link thresholds\<close>

lemma norm_links_loop_Inr:
  assumes "norm_links_loop r el scale t acc = Inr normed" and "distinct (map fst t)"
  shows "(\<forall>(k, v) \<in> set t.
            (k = get_nodelist_default_col r \<longrightarrow> map_of normed k = Some (scalar_quotient v scale))
          \<and> (k \<noteq> get_nodelist_default_col r \<longrightarrow>
               (\<exists>col. edge_column el k = Inr col \<and> map_of normed k = Some (scalar_quotient v (abs_max col)))))
       \<and> (\<forall>k. k \<notin> fst ` set t \<longrightarrow> map_of normed k = map_of acc k)"
  using assms
proof (induction t arbitrary: acc)
  case Nil
  then show ?case by simp
next
  case (Cons a t)
  obtain k w where a: "a = (k, w)" by (cases a)
  from Cons.prems(2) have d: "distinct (map fst t)" and kn: "k \<notin> fst ` set t" by (auto simp: a)
  show ?case
  proof (cases "k = get_nodelist_default_col r")
    case True
    from Cons.prems(1) True obtain q where q: "truediv w scale = Inr q"
      and rest: "norm_links_loop r el scale t (AList.update k q acc) = Inr normed"
      by (auto simp: a split: sum.splits)
    from Cons.IH [OF rest d] kn have "map_of normed k = Some q" by (simp add: update_conv')
    with Cons.IH [OF rest d] truediv_Inr [OF q] True show ?thesis
      by (auto simp: a update_conv')
  next
    case False
    from Cons.prems(1) False obtain col q where col: "edge_column el k = Inr col"
      and q: "truediv w (abs_max col) = Inr q"
      and rest: "norm_links_loop r el scale t (AList.update k q acc) = Inr normed"
      by (auto simp: a split: sum.splits)
    from Cons.IH [OF rest d] kn have "map_of normed k = Some q" by (simp add: update_conv')
    with Cons.IH [OF rest d] truediv_Inr [OF q] False col show ?thesis
      by (auto simp: a update_conv')
  qed
qed

text \<open>
  Claim C8 (scale of a link threshold). When \<open>_get_norm_link_threshold\<close> returns the
  normalized mapping of a requested mapping, the session is unchanged and every requested
  key has its threshold divided by a maximal absolute value of the edge list: that of the
  edge list's default column when the key is the default column name of the node list,
  and that of the key's own column otherwise.
\<close>

theorem link_threshold_scale:
  assumes "get_norm_link_threshold r s (Some t) = (Inr (Some normed), s')"
    and "distinct (map fst t)" and "(key, v) \<in> set t"
  shows "s' = s
       \<and> (key = get_nodelist_default_col r \<longrightarrow>
            (\<exists>col. edge_column (edgelist s) (get_edgelist_default_col r) = Inr col
                 \<and> map_of normed key = Some (scalar_quotient v (abs_max col))))
       \<and> (key \<noteq> get_nodelist_default_col r \<longrightarrow>
            (\<exists>col. edge_column (edgelist s) key = Inr col
                 \<and> map_of normed key = Some (scalar_quotient v (abs_max col))))"
proof -
  from assms(1) obtain col0 where c0: "edge_column (edgelist s) (get_edgelist_default_col r) = Inr col0"
    and loop: "norm_links_loop r (edgelist s) (abs_max col0) t [] = Inr normed" and s: "s' = s"
    by (auto simp: get_norm_link_threshold_def split: sum.splits)
  from norm_links_loop_Inr [OF loop assms(2)] assms(3) c0 s show ?thesis by fastforce
qed

text \<open>
  The default key is divided by 8, the maximum of the default weight, and the custom
  metric by its own maximum 10.
\<close>

theorem link_threshold_scale_witness:
  "get_norm_link_threshold (explorer []) weighted_session (Some [(''number_of_events'', Py (Fin 2)), (''avg_time'', Np (Fin 5))])
     = (Inr (Some [(''number_of_events'', Py (Fin (1 / 4))), (''avg_time'', Np (Fin (1 / 2)))]), weighted_session)
   \<and> edge_column (edgelist weighted_session) (get_edgelist_default_col (explorer [])) = Inr [Fin 4, Fin (- 8)]
   \<and> map_of [(''number_of_events'', Py (Fin (1 / 4))), (''avg_time'', Np (Fin (1 / 2)))] ''number_of_events''
       = Some (scalar_quotient (Py (Fin 2)) (abs_max [Fin 4, Fin (- 8)]))
   \<and> edge_column (edgelist weighted_session) ''avg_time'' = Inr [Fin 10, Fin 5]
   \<and> map_of [(''number_of_events'', Py (Fin (1 / 4))), (''avg_time'', Np (Fin (1 / 2)))] ''avg_time''
       = Some (scalar_quotient (Np (Fin 5)) (abs_max [Fin 10, Fin 5]))"
proof -
  let ?t = "[(''number_of_events'', Py (Fin 2)), (''avg_time'', Np (Fin 5))]"
  let ?n = "[(''number_of_events'', Py (Fin (1 / 4))), (''avg_time'', Np (Fin (1 / 2)))]"
  have c1: "edge_column (edgelist weighted_session) (get_edgelist_default_col (explorer [])) = Inr [Fin 4, Fin (- 8)]"
    and c2: "edge_column (edgelist weighted_session) ''avg_time'' = Inr [Fin 10, Fin 5]"
    by (simp_all add: weighted_session_def edge_column_def edge_cell_def cell_def explorer_def)
  have m1: "abs_max [Fin 4, Fin (- 8)] = Fin 8" and m2: "abs_max [Fin 10, Fin 5] = Fin 10"
    by (simp_all add: abs_max_def series_max_def np_max2_def)
  have run: "get_norm_link_threshold (explorer []) weighted_session (Some ?t) = (Inr (Some ?n), weighted_session)"
    unfolding get_norm_link_threshold_def c1
    by (simp add: m1) (simp add: explorer_def c2 [simplified] m2 weighted_session_def edge_column_def edge_cell_def cell_def)
  have d: "distinct (map fst ?t)" by simp
  have k1: "''number_of_events'' = get_nodelist_default_col (explorer [])"
    and k2: "''avg_time'' \<noteq> get_nodelist_default_col (explorer [])" by (simp_all add: explorer_def)
  from link_threshold_scale [OF run d, of "''number_of_events''" "Py (Fin 2)"] k1 c1
  have a: "map_of ?n ''number_of_events'' = Some (scalar_quotient (Py (Fin 2)) (abs_max [Fin 4, Fin (- 8)]))" by auto
  from link_threshold_scale [OF run d, of "''avg_time''" "Np (Fin 5)"] k2 c2
  have b: "map_of ?n ''avg_time'' = Some (scalar_quotient (Np (Fin 5)) (abs_max [Fin 10, Fin 5]))" by auto
  show ?thesis
    by (intro conjI) (rule run c1 a c2 b)+
qed

section \<open>Layout\<close>

lemma py_min_Inr: "py_min xs = Inr m \<Longrightarrow> m \<in> set xs \<and> (\<forall>x \<in> set xs. m \<le> x)"
proof (cases xs)
  case Nil
  then show "py_min xs = Inr m \<Longrightarrow> ?thesis" by simp
next
  case (Cons a as)
  assume "py_min xs = Inr m"
  with Cons have "fold min as a = m" by simp
  then have "m = Min (set (a # as))" by (simp only: Min.set_eq_fold)
  with Cons show ?thesis by (metis List.finite_set Min_in Min_le list.distinct(1) set_empty)
qed

lemma py_max_Inr: "py_max xs = Inr m \<Longrightarrow> m \<in> set xs \<and> (\<forall>x \<in> set xs. x \<le> m)"
proof (cases xs)
  case Nil
  then show "py_max xs = Inr m \<Longrightarrow> ?thesis" by simp
next
  case (Cons a as)
  assume "py_max xs = Inr m"
  with Cons have "fold max as a = m" by simp
  then have "m = Max (set (a # as))" by (simp only: Max.set_eq_fold)
  with Cons show ?thesis by (metis List.finite_set Max_in Max_ge list.distinct(1) set_empty)
qed



lemma rescale_degenerate: "rescale lo lo extent margin lo = NaN"
  by (simp add: rescale_def)








section \<open>Layouts of concrete sessions\<close>

lemma chain_positions:
  "template_positions chain_spring chain_session [] = [(''B'', 0, 0), (''A'', 1, 2), (''C'', 1 / 2, 1), (''D'', 1, 0)]"
  by (simp add: chain_spring_def)






text \<open>
  Claim C6 (degenerate bounding box), amended. On an edge list with its three leading
  columns and a layout of at least one node, \<open>_calc_layout\<close> raises nothing. When all
  positions have the same \<open>x\<close>, the \<open>x\<close> it returns for every node is \<open>nan\<close>; when all positions
  have the same \<open>y\<close>, the \<open>y\<close> it returns for every node is \<open>nan\<close>.
\<close>

theorem degenerate_layout_gives_nan:
  assumes "3 \<le> length (ecolumns el)" and "spring (graph_edges el) \<noteq> []"
  shows "\<exists>computed. calc_layout spring el width height = Inr computed
          \<and> map fst computed = map fst (spring (graph_edges el))
          \<and> ((\<forall>p \<in> set (spring (graph_edges el)). \<forall>q \<in> set (spring (graph_edges el)). fst (snd p) = fst (snd q))
               \<longrightarrow> (\<forall>c \<in> set computed. fst (snd c) = NaN))
          \<and> ((\<forall>p \<in> set (spring (graph_edges el)). \<forall>q \<in> set (spring (graph_edges el)). snd (snd p) = snd (snd q))
               \<longrightarrow> (\<forall>c \<in> set computed. snd (snd c) = NaN))"
proof -
  let ?P = "spring (graph_edges el)"
  let ?xs = "map (\<lambda>(i, j). fst j) ?P" and ?ys = "map (\<lambda>(i, j). snd j) ?P"
  from assms(2) obtain p0 ps where P: "?P = p0 # ps" by (cases ?P) auto
  obtain min_x where mnx: "py_min ?xs = Inr min_x" by (simp add: P)
  obtain min_y where mny: "py_min ?ys = Inr min_y" by (simp add: P)
  obtain max_x where mxx: "py_max ?xs = Inr max_x" by (simp add: P)
  obtain max_y where mxy: "py_max ?ys = Inr max_y" by (simp add: P)
  let ?computed = "map (\<lambda>(i, j). (i, rescale min_x max_x (width - 150) 75 (fst j),
                                       rescale min_y max_y (height - 100) 50 (snd j))) ?P"
  have r: "calc_layout spring el width height = Inr ?computed"
    using assms(1) by (simp add: calc_layout_def Let_def mnx mny mxx mxy)
  have k: "map fst ?computed = map fst ?P" by (simp add: case_prod_beta comp_def)
  have zx: "\<forall>c \<in> set ?computed. fst (snd c) = NaN"
    if eq: "\<forall>p \<in> set ?P. \<forall>q \<in> set ?P. fst (snd p) = fst (snd q)"
  proof -
    from py_min_Inr [OF mnx] obtain a where a: "a \<in> set ?P" "min_x = fst (snd a)" by (auto simp: case_prod_beta)
    from py_max_Inr [OF mxx] obtain b where b: "b \<in> set ?P" "max_x = fst (snd b)" by (auto simp: case_prod_beta)
    from eq a b have "\<forall>p \<in> set ?P. fst (snd p) = min_x \<and> max_x = min_x" by metis
    then show ?thesis by (auto simp: case_prod_beta rescale_degenerate)
  qed
  have zy: "\<forall>c \<in> set ?computed. snd (snd c) = NaN"
    if eq: "\<forall>p \<in> set ?P. \<forall>q \<in> set ?P. snd (snd p) = snd (snd q)"
  proof -
    from py_min_Inr [OF mny] obtain a where a: "a \<in> set ?P" "min_y = snd (snd a)" by (auto simp: case_prod_beta)
    from py_max_Inr [OF mxy] obtain b where b: "b \<in> set ?P" "max_y = snd (snd b)" by (auto simp: case_prod_beta)
    from eq a b have "\<forall>p \<in> set ?P. snd (snd p) = min_y \<and> max_y = min_y" by metis
    then show ?thesis by (auto simp: case_prod_beta rescale_degenerate)
  qed
  from r k zx zy show ?thesis by blast
qed

text \<open>
  Three nodes on one vertical line: every \<open>x\<close> is \<open>nan\<close>, the \<open>y\<close> are rescaled.
\<close>

theorem degenerate_layout_gives_nan_witness:
  "calc_layout column_spring (edgelist weighted_session) 960 900
     = Inr [(''A'', NaN, Fin 50), (''B'', NaN, Fin 450), (''C'', NaN, Fin 850)]"
proof -
  have c: "3 \<le> length (ecolumns (edgelist weighted_session))" by (simp add: weighted_session_def)
  have n: "column_spring (graph_edges (edgelist weighted_session)) \<noteq> []" by (simp add: column_spring_def)
  have z: "\<forall>p \<in> set (column_spring (graph_edges (edgelist weighted_session))).
           \<forall>q \<in> set (column_spring (graph_edges (edgelist weighted_session))). fst (snd p) = fst (snd q)"
    by (simp add: column_spring_def)
  from degenerate_layout_gives_nan [where spring = column_spring and el = "edgelist weighted_session"
      and width = 960 and height = 900, OF c n] z
  obtain computed where r: "calc_layout column_spring (edgelist weighted_session) 960 900 = Inr computed"
    and x: "\<forall>c \<in> set computed. fst (snd c) = NaN" by blast
  have "calc_layout column_spring (edgelist weighted_session) 960 900
          = Inr [(''A'', rescale 0 0 810 75 0, Fin 50), (''B'', rescale 0 0 810 75 0, Fin 450), (''C'', rescale 0 0 810 75 0, Fin 850)]"
    by (simp add: calc_layout_def column_spring_def weighted_session_def) (simp add: rescale_def)
  with r x show ?thesis by auto
qed

text \<open>
  Claim C6 as stated fails on the graph of one node: the bounding box is a point, and the
  rescale returns \<open>nan\<close> for both coordinates instead of raising.
\<close>

theorem degenerate_layout_counterexample:
  "calc_layout loop_spring loop_edgelist 960 900 = Inr [(''A'', NaN, NaN)]"
  by (simp add: calc_layout_def loop_spring_def loop_edgelist_def rescale_def)

section \<open>Node degrees\<close>

lemma fold_np_max2_Fin: "fold np_max2 (map Fin ys) (Fin y) = Fin (fold max ys y)"
  by (induction ys arbitrary: y) (auto simp: np_max2_def max_def)

lemma abs_max_Fin: "abs_max (map Fin (y # ys)) = Fin (Max (set (map abs (y # ys))))"
proof -
  have "abs_max (map Fin (y # ys)) = series_max (map Fin (map abs (y # ys)))"
    by (simp add: abs_max_def comp_def)
  also have "\<dots> = fold np_max2 (map Fin (map abs ys)) (Fin \<bar>y\<bar>)"
    by (simp add: series_max_def comp_def)
  also have "\<dots> = Fin (fold max (map abs ys) \<bar>y\<bar>)" by (rule fold_np_max2_Fin)
  also have "fold max (map abs ys) \<bar>y\<bar> = Max (set (map abs (y # ys)))"
    by (simp only: Max.set_eq_fold list.map)
  finally show ?thesis .
qed

text \<open>
  The edge weights do keep the bound: \<open>_prepare_edges\<close> divides by the maximum of the
  absolute values of the column.
\<close>

lemma edge_weight_norm_bound:
  assumes col: "edge_column el weight_col = Inr (map Fin ws)"
    and nz: "abs_max (map Fin ws) \<noteq> Fin 0"
    and row: "row \<in> set (erows (set_weight_norm el weight_col (abs_max (map Fin ws))))"
  shows "\<exists>q. e_weight_norm row = Fin q \<and> \<bar>q\<bar> \<le> 1"
proof -
  from row obtain old where old: "old \<in> set (erows el)"
    and wn: "e_weight_norm row = np_div (edge_cell old weight_col) (abs_max (map Fin ws))"
    by (auto simp: set_weight_norm_def)
  from col have cells: "map (\<lambda>row. edge_cell row weight_col) (erows el) = map Fin ws"
    by (simp add: edge_column_def split: if_splits)
  from old have "edge_cell old weight_col \<in> set (map (\<lambda>row. edge_cell row weight_col) (erows el))" by simp
  then obtain w where w: "w \<in> set ws" "edge_cell old weight_col = Fin w" unfolding cells by auto
  then obtain y ys where ws: "ws = y # ys" by (cases ws) auto
  let ?M = "Max (set (map abs (y # ys)))"
  have m: "abs_max (map Fin ws) = Fin ?M" unfolding ws by (rule abs_max_Fin)
  have "\<bar>w\<bar> \<in> set (map abs (y # ys))" using w(1) ws by auto
  then have le: "\<bar>w\<bar> \<le> ?M" by (intro Max_ge) simp_all
  have "?M \<noteq> 0" using nz m by simp
  with le have pos: "0 < ?M" using abs_ge_zero [of w] by linarith
  have "e_weight_norm row = Fin (w / ?M)" using wn w(2) m pos by simp
  moreover have "\<bar>w / ?M\<bar> \<le> 1" using le pos by simp
  ultimately show ?thesis by blast
qed

text \<open>
  Claim C4 (normalization bound) fails for the node degrees. \<open>_prepare_nodes\<close> divides the
  absolute value of a node's metric by the absolute value of the column's maximum, not by
  the maximum of the absolute values. For the metric values \<open>-5\<close> and \<open>1\<close> the ratio of the
  first node is 5 and its degree \<open>5 * 30 + 4 = 154\<close>, outside \<open>[4, 34]\<close>. On the same node list
  \<open>_get_norm_node_threshold\<close> divides by the maximum of the absolute values, 5.
\<close>

theorem node_degree_exceeds_bound:
  "\<not> isl (prepare_nodes signed_rete signed_nodelist None None)
   \<and> map (\<lambda>n. (p_name n, map (\<lambda>kd. (fst kd, d_degree (snd kd))) (p_degree n)))
         (fst (projr (prepare_nodes signed_rete signed_nodelist None None)))
       = [(''A'', [(''change'', Fin 154)]), (''B'', [(''change'', Fin 34)])]
   \<and> np_div (np_abs (Fin (- 5))) (np_abs (series_max [Fin (- 5), Fin 1])) = Fin 5
   \<and> fst (get_norm_node_threshold (chain_session\<lparr>nodelist := signed_nodelist\<rparr>) (Some [(''change'', Py (Fin 5))]))
       = Inr (Some [(''change'', Py (Fin 1))])"
  by (simp add: signed_rete_def signed_nodelist_def chain_node_def explorer_def
        prepare_nodes_def prepare_node_def node_degree_def node_column_def node_type_def
        dict_of_def cell_def series_max_def abs_max_def np_max2_def
        get_norm_node_threshold_def)

end
